theory Spec2Isabelle
  imports Complex_Main
begin

section \<open>Errors and results\<close>

text \<open>
  Every Python exception the modelled code can raise is a value; a function that can
  raise returns \<open>error + 'a\<close> with \<open>Inl\<close> for the exception.
\<close>

datatype error = AssertionError | IndexError | RuntimeError | AttributeError | TypeError

definition and_then :: "error + 'a \<Rightarrow> ('a \<Rightarrow> error + 'b) \<Rightarrow> error + 'b" where
  "and_then m f = (case m of Inl e \<Rightarrow> Inl e | Inr x \<Rightarrow> f x)"

section \<open>Tensors\<close>

text \<open>
  A tensor is its shape and its elements in row-major order. Elements are real numbers:
  the development is about exact arithmetic, so rounding, infinities and NaN of the
  floating-point engine are outside it (a division by zero yields HOL's \<open>x / 0 = 0\<close>
  where the engine yields a non-finite value).
\<close>

datatype tensor = Tensor (shape: "nat list") (data: "real list")

definition wf_tensor :: "tensor \<Rightarrow> bool" where
  "wf_tensor t \<longleftrightarrow> length (data t) = prod_list (shape t)"

definition rank :: "tensor \<Rightarrow> nat" where
  "rank t = length (shape t)"

fun ravel :: "nat list \<Rightarrow> nat list \<Rightarrow> nat" where
  "ravel (n # s) (i # u) = i * prod_list s + ravel s u"
| "ravel _ _ = 0"

fun unravel :: "nat list \<Rightarrow> nat \<Rightarrow> nat list" where
  "unravel [] p = []"
| "unravel (n # s) p = (p div prod_list s) # unravel s (p mod prod_list s)"

definition idx_ok :: "nat list \<Rightarrow> nat list \<Rightarrow> bool" where
  "idx_ok s u \<longleftrightarrow> list_all2 (\<lambda>i n. i < n) u s"

definition elem :: "tensor \<Rightarrow> nat list \<Rightarrow> real" where
  "elem t u = data t ! ravel (shape t) u"

definition tabulate :: "nat list \<Rightarrow> (nat list \<Rightarrow> real) \<Rightarrow> tensor" where
  "tabulate s f = Tensor s (map (\<lambda>p. f (unravel s p)) [0..<prod_list s])"

subsection \<open>The engine's operations used by the source\<close>

text \<open>Elementwise unary operations (\<open>torch.exp\<close>, \<open>torch.cos\<close>, \<open>t**2\<close>, \<open>c * t\<close>).\<close>

definition tmap :: "(real \<Rightarrow> real) \<Rightarrow> tensor \<Rightarrow> tensor" where
  "tmap f t = Tensor (shape t) (map f (data t))"

text \<open>
  Broadcasting of two shapes, aligned at the trailing axis: two sizes are compatible
  when they are equal or one of them is 1. The helper works on reversed shapes.
\<close>

fun broadcast_rev :: "nat list \<Rightarrow> nat list \<Rightarrow> nat list option" where
  "broadcast_rev [] ys = Some ys"
| "broadcast_rev (x # xs) [] = Some (x # xs)"
| "broadcast_rev (x # xs) (y # ys) =
     (if x = y \<or> y = 1 then map_option ((#) x) (broadcast_rev xs ys)
      else if x = 1 then map_option ((#) y) (broadcast_rev xs ys)
      else None)"

definition broadcast_shapes :: "nat list \<Rightarrow> nat list \<Rightarrow> nat list option" where
  "broadcast_shapes a b = map_option rev (broadcast_rev (rev a) (rev b))"

text \<open>The index of an operand of shape \<open>sa\<close> that the result index \<open>u\<close> reads.\<close>

definition bidx :: "nat list \<Rightarrow> nat list \<Rightarrow> nat list" where
  "bidx sa u = map2 (\<lambda>n i. if n = 1 then 0 else i) sa (drop (length u - length sa) u)"

definition broadcast_op :: "(real \<Rightarrow> real \<Rightarrow> real) \<Rightarrow> tensor \<Rightarrow> tensor \<Rightarrow> error + tensor" where
  "broadcast_op f a b =
     (case broadcast_shapes (shape a) (shape b) of
        None \<Rightarrow> Inl RuntimeError
      | Some r \<Rightarrow> Inr (tabulate r (\<lambda>u. f (elem a (bidx (shape a) u)) (elem b (bidx (shape b) u)))))"

text \<open>Indexing one axis with an integer: \<open>t[..., k]\<close>, \<open>t[i, ...]\<close>, \<open>t[:, :, i, :]\<close>.\<close>

definition select_axis :: "nat \<Rightarrow> nat \<Rightarrow> tensor \<Rightarrow> error + tensor" where
  "select_axis ax i t =
     (if rank t \<le> ax then Inl IndexError
      else if shape t ! ax \<le> i then Inl IndexError
      else Inr (tabulate (take ax (shape t) @ drop (Suc ax) (shape t))
                  (\<lambda>u. elem t (take ax u @ [i] @ drop ax u))))"

definition select_last :: "nat \<Rightarrow> tensor \<Rightarrow> error + tensor" where
  "select_last k t = (if rank t = 0 then Inl IndexError else select_axis (rank t - 1) k t)"

definition select_first :: "nat \<Rightarrow> tensor \<Rightarrow> error + tensor" where
  "select_first i t = select_axis 0 i t"

text \<open>
  In-place update of one index of an axis, \<open>t[..., k] = f(t[..., k], v)\<close> (as in
  \<open>t[..., k] *= v\<close>): the value is broadcast to the shape of the slice and must not
  be larger than it.
\<close>

definition inplace_axis ::
  "nat \<Rightarrow> nat \<Rightarrow> (real \<Rightarrow> real \<Rightarrow> real) \<Rightarrow> tensor \<Rightarrow> tensor \<Rightarrow> error + tensor" where
  "inplace_axis ax i f t v =
     (if rank t \<le> ax then Inl IndexError
      else if shape t ! ax \<le> i then Inl IndexError
      else let sl = take ax (shape t) @ drop (Suc ax) (shape t) in
        if broadcast_shapes sl (shape v) = Some sl
        then Inr (tabulate (shape t)
               (\<lambda>u. if u ! ax = i
                    then f (elem t u) (elem v (bidx (shape v) (take ax u @ drop (Suc ax) u)))
                    else elem t u))
        else Inl RuntimeError)"

definition inplace_last ::
  "nat \<Rightarrow> (real \<Rightarrow> real \<Rightarrow> real) \<Rightarrow> tensor \<Rightarrow> tensor \<Rightarrow> error + tensor" where
  "inplace_last k f t v =
     (if rank t = 0 then Inl IndexError else inplace_axis (rank t - 1) k f t v)"

text \<open>
  Item assignment \<open>t[..., k] = v\<close> and \<open>t[i, ...] = v\<close>: the engine drops the leading
  axes of size 1 of the value, then broadcasts it to the shape of the slice.
\<close>

definition strip_ones :: "tensor \<Rightarrow> tensor" where
  "strip_ones v = Tensor (dropWhile (\<lambda>n. n = 1) (shape v)) (data v)"

definition assign_axis :: "nat \<Rightarrow> nat \<Rightarrow> tensor \<Rightarrow> tensor \<Rightarrow> error + tensor" where
  "assign_axis ax i t v = inplace_axis ax i (\<lambda>old new. new) t (strip_ones v)"

definition assign_last :: "nat \<Rightarrow> tensor \<Rightarrow> tensor \<Rightarrow> error + tensor" where
  "assign_last k t v = (if rank t = 0 then Inl IndexError else assign_axis (rank t - 1) k t v)"

definition assign_first :: "nat \<Rightarrow> tensor \<Rightarrow> tensor \<Rightarrow> error + tensor" where
  "assign_first i t v = assign_axis 0 i t v"

text \<open>A Python float as a zero-dimensional tensor.\<close>

definition scalar :: "real \<Rightarrow> tensor" where
  "scalar c = Tensor [] [c]"

text \<open>\<open>torch.stack((a, b), dim=d)\<close>: a new axis of size 2 at position \<open>d\<close>.\<close>

definition stack2 :: "nat \<Rightarrow> tensor \<Rightarrow> tensor \<Rightarrow> error + tensor" where
  "stack2 d a b =
     (if shape a \<noteq> shape b then Inl RuntimeError
      else if rank a < d then Inl IndexError
      else Inr (tabulate (take d (shape a) @ [2] @ drop d (shape a))
                  (\<lambda>u. elem (if u ! d = 0 then a else b) (take d u @ drop (Suc d) u))))"

text \<open>
  \<open>t.sum(ax)\<close> for \<open>ax \<ge> 0\<close>. A zero-dimensional tensor accepts axis 0 (and -1) and is
  returned as it is.
\<close>

definition sum_axis :: "nat \<Rightarrow> tensor \<Rightarrow> error + tensor" where
  "sum_axis ax t =
     (if rank t = 0 then (if ax = 0 then Inr t else Inl IndexError)
      else if rank t \<le> ax then Inl IndexError
      else Inr (tabulate (take ax (shape t) @ drop (Suc ax) (shape t))
                  (\<lambda>u. \<Sum>i\<leftarrow>[0..<shape t ! ax]. elem t (take ax u @ [i] @ drop ax u))))"

text \<open>\<open>t.sum(-1)\<close>.\<close>

definition sum_last :: "tensor \<Rightarrow> tensor" where
  "sum_last t =
     (if rank t = 0 then t
      else tabulate (butlast (shape t)) (\<lambda>u. \<Sum>i\<leftarrow>[0..<last (shape t)]. elem t (u @ [i])))"

text \<open>
  \<open>torch.atan2(y, x)\<close> on real numbers, with values in \<open>(-pi, pi]\<close> and 0 at the origin.
\<close>

definition atan2 :: "real \<Rightarrow> real \<Rightarrow> real" where
  "atan2 y x =
     (if 0 < x then arctan (y / x)
      else if x < 0 \<and> 0 \<le> y then arctan (y / x) + pi
      else if x < 0 \<and> y < 0 then arctan (y / x) - pi
      else if 0 < y then pi / 2
      else if y < 0 then - pi / 2
      else 0)"

text \<open>
  \<open>torch.roll(t, shift, dims=ax)\<close>: the element at index \<open>k\<close> of the axis moves to
  index \<open>(k + shift) mod N\<close>.
\<close>

definition roll :: "int \<Rightarrow> nat \<Rightarrow> tensor \<Rightarrow> tensor" where
  "roll shift ax t =
     tabulate (shape t)
       (\<lambda>u. elem t (u[ax := nat ((int (u ! ax) - shift) mod int (shape t ! ax))]))"

text \<open>\<open>t.unsqueeze(d)\<close>, \<open>t.repeat(reps)\<close> and \<open>t.permute(perm)\<close>.\<close>

definition unsqueeze :: "nat \<Rightarrow> tensor \<Rightarrow> error + tensor" where
  "unsqueeze d t =
     (if rank t < d then Inl IndexError
      else Inr (Tensor (take d (shape t) @ [1] @ drop d (shape t)) (data t)))"

definition repeat :: "nat list \<Rightarrow> tensor \<Rightarrow> error + tensor" where
  "repeat reps t =
     (if length reps < rank t then Inl RuntimeError
      else let s = replicate (length reps - rank t) 1 @ shape t in
        Inr (tabulate (map2 (*) reps s)
               (\<lambda>u. elem t (drop (length reps - rank t) (map2 (\<lambda>i n. i mod n) u s)))))"

fun index_of :: "nat list \<Rightarrow> nat \<Rightarrow> nat" where
  "index_of [] a = 0"
| "index_of (x # xs) a = (if x = a then 0 else Suc (index_of xs a))"

definition permute :: "nat list \<Rightarrow> tensor \<Rightarrow> error + tensor" where
  "permute perm t =
     (if length perm = rank t \<and> distinct perm \<and> list_all (\<lambda>a. a < rank t) perm
      then Inr (tabulate (map (\<lambda>a. shape t ! a) perm)
                  (\<lambda>u. elem t (map (\<lambda>a. u ! index_of perm a) [0..<rank t])))
      else Inl RuntimeError)"

subsection \<open>The discrete Fourier transform\<close>

text \<open>
  \<open>torch.fft(t, signal_ndim=n)\<close> and \<open>torch.ifft(t, signal_ndim=n)\<close> work on a
  tensor whose trailing axis holds (real, imaginary) and transform the \<open>n\<close> axes
  before it; the inverse transform divides by the number of transformed elements.
  The transform of several axes is the composition of the one-axis transforms. The
  axes before the transformed ones count the transforms of a stack; a stack that holds
  no transform at all (one of these axes has size 0) is refused with a runtime error.
\<close>

definition cat :: "tensor \<Rightarrow> nat list \<Rightarrow> complex" where
  "cat t v = Complex (elem t (v @ [0])) (elem t (v @ [1]))"

definition dft_axis :: "bool \<Rightarrow> nat \<Rightarrow> tensor \<Rightarrow> tensor" where
  "dft_axis inv_flag ax t =
     tabulate (shape t)
       (\<lambda>u. let n = shape t ! ax;
                z = (\<Sum>m\<leftarrow>[0..<n]. cat t ((butlast u)[ax := m]) *
                       cis ((if inv_flag then 1 else - 1) * (2 * pi * real (u ! ax) * real m / real n)));
                w = (if inv_flag then z / of_nat n else z)
            in if last u = 0 then Re w else Im w)"

definition fft_t :: "nat \<Rightarrow> tensor \<Rightarrow> error + tensor" where
  "fft_t n t =
     (if 1 \<le> n \<and> n \<le> 3 \<and> n + 1 \<le> rank t \<and> last (shape t) = 2
         \<and> 0 < prod_list (take (rank t - 1 - n) (shape t))
      then Inr (fold (dft_axis False) [rank t - 1 - n..<rank t - 1] t)
      else Inl RuntimeError)"

definition ifft_t :: "nat \<Rightarrow> tensor \<Rightarrow> error + tensor" where
  "ifft_t n t =
     (if 1 \<le> n \<and> n \<le> 3 \<and> n + 1 \<le> rank t \<and> last (shape t) = 2
         \<and> 0 < prod_list (take (rank t - 1 - n) (shape t))
      then Inr (fold (dft_axis True) (rev [rank t - 1 - n..<rank t - 1]) t)
      else Inl RuntimeError)"

section \<open>Complex operators (operators.py)\<close>

text \<open>
  \<open>r2c\<close>: a trailing axis of size 1 is added, a copy is zeroed, and the two are
  concatenated along the trailing axis.
\<close>

definition r2c :: "tensor \<Rightarrow> error + tensor" where
  "r2c real_tensor =
     and_then (unsqueeze (rank real_tensor) real_tensor) (\<lambda>real_tensor.
       let imaginary_tensor = tmap (\<lambda>x. 0) real_tensor in
       Inr (tabulate (butlast (shape real_tensor) @ [2])
              (\<lambda>u. elem (if last u = 0 then real_tensor else imaginary_tensor) (butlast u @ [0]))))"

definition real_t :: "tensor \<Rightarrow> error + tensor" where
  "real_t complex_tensor = select_last 0 complex_tensor"

definition imag :: "tensor \<Rightarrow> error + tensor" where
  "imag complex_tensor = select_last 1 complex_tensor"

text \<open>\<open>conj\<close>: on a copy of the input, \<open>[..., 1] *= -1.0\<close>.\<close>

definition conj_t :: "tensor \<Rightarrow> error + tensor" where
  "conj_t complex_tensor = inplace_last 1 (*) complex_tensor (scalar (- 1))"

text \<open>\<open>angle\<close>: \<open>torch.atan2(t[..., 1], t[..., 0])\<close>.\<close>

definition angle :: "tensor \<Rightarrow> error + tensor" where
  "angle complex_tensor =
     and_then (select_last 1 complex_tensor) (\<lambda>im.
     and_then (select_last 0 complex_tensor) (\<lambda>re.
       broadcast_op atan2 im re))"

text \<open>
  \<open>exp\<close>: on a copy of the input, channel 0 becomes \<open>exp(re) * cos(im)\<close> and channel 1
  becomes \<open>exp(re) * sin(im)\<close>; other channels, if any, are kept.
\<close>

definition exp_t :: "tensor \<Rightarrow> error + tensor" where
  "exp_t complex_tensor =
     and_then (select_last 0 complex_tensor) (\<lambda>re.
       let amplitude = tmap exp re in
     and_then (select_last 1 complex_tensor) (\<lambda>im.
     and_then (broadcast_op (*) amplitude (tmap cos im)) (\<lambda>v0.
     and_then (assign_last 0 complex_tensor v0) (\<lambda>output.
     and_then (select_last 1 complex_tensor) (\<lambda>im.
     and_then (broadcast_op (*) amplitude (tmap sin im)) (\<lambda>v1.
       assign_last 1 output v1))))))"

text \<open>
  \<open>multiply_complex\<close> and \<open>division_complex\<close>: the real and the imaginary part are
  computed from channels 0 and 1 with broadcasting and stacked along a new trailing
  axis; the denominator of the division sums the squares of the whole trailing axis.
\<close>

definition multiply_complex :: "tensor \<Rightarrow> tensor \<Rightarrow> error + tensor" where
  "multiply_complex complex_tensor1 complex_tensor2 =
     and_then (select_last 0 complex_tensor1) (\<lambda>a0.
     and_then (select_last 0 complex_tensor2) (\<lambda>b0.
     and_then (broadcast_op (*) a0 b0) (\<lambda>p00.
     and_then (select_last 1 complex_tensor1) (\<lambda>a1.
     and_then (select_last 1 complex_tensor2) (\<lambda>b1.
     and_then (broadcast_op (*) a1 b1) (\<lambda>p11.
     and_then (broadcast_op (-) p00 p11) (\<lambda>complex_tensor_mul_real.
     and_then (broadcast_op (*) a0 b1) (\<lambda>p01.
     and_then (broadcast_op (*) a1 b0) (\<lambda>p10.
     and_then (broadcast_op (+) p01 p10) (\<lambda>complex_tensor_mul_imag.
       stack2 (rank complex_tensor_mul_real)
         complex_tensor_mul_real complex_tensor_mul_imag))))))))))"

definition division_complex :: "tensor \<Rightarrow> tensor \<Rightarrow> error + tensor" where
  "division_complex complex_tensor1 complex_tensor2 =
     (let denominator = sum_last (tmap (\<lambda>x. x ^ 2) complex_tensor2) in
     and_then (select_last 0 complex_tensor1) (\<lambda>a0.
     and_then (select_last 0 complex_tensor2) (\<lambda>b0.
     and_then (broadcast_op (*) a0 b0) (\<lambda>p00.
     and_then (select_last 1 complex_tensor1) (\<lambda>a1.
     and_then (select_last 1 complex_tensor2) (\<lambda>b1.
     and_then (broadcast_op (*) a1 b1) (\<lambda>p11.
     and_then (broadcast_op (+) p00 p11) (\<lambda>num_real.
     and_then (broadcast_op (/) num_real denominator) (\<lambda>complex_tensor_mul_real.
     and_then (broadcast_op (*) a1 b0) (\<lambda>p10.
     and_then (broadcast_op (*) a0 b1) (\<lambda>p01.
     and_then (broadcast_op (-) p10 p01) (\<lambda>num_imag.
     and_then (broadcast_op (/) num_imag denominator) (\<lambda>complex_tensor_mul_imag.
       stack2 (rank complex_tensor_mul_real)
         complex_tensor_mul_real complex_tensor_mul_imag)))))))))))))"

text \<open>The check \<open>assert t.shape[-1]==2\<close>; \<open>shape[-1]\<close> of an empty shape raises.\<close>

definition assert_complex :: "tensor \<Rightarrow> error + unit" where
  "assert_complex t =
     (if rank t = 0 then Inl IndexError
      else if last (shape t) = 2 then Inr () else Inl AssertionError)"

definition abs_t :: "tensor \<Rightarrow> error + tensor" where
  "abs_t complex_tensor =
     and_then (assert_complex complex_tensor) (\<lambda>_.
       Inr (tmap sqrt (sum_last (tmap (\<lambda>x. x ^ 2) complex_tensor))))"

definition convolve_kernel :: "tensor \<Rightarrow> tensor \<Rightarrow> nat \<Rightarrow> bool \<Rightarrow> error + tensor" where
  "convolve_kernel tensor_in kernel_t n_dim flag_inplace =
     (if flag_inplace then
        and_then (fft_t n_dim tensor_in) (\<lambda>tensor_in.
        and_then (multiply_complex tensor_in kernel_t) (\<lambda>tensor_in.
          ifft_t n_dim tensor_in))
      else
        and_then (fft_t n_dim tensor_in) (\<lambda>output.
        and_then (multiply_complex output kernel_t) (\<lambda>output.
          ifft_t n_dim output)))"

text \<open>
  \<open>axes=None\<close> becomes the one-element array \<open>[None]\<close>, which cannot index a
  shape. An axis \<open>a\<close> is valid for rank \<open>r\<close> when \<open>-r \<le> a < r\<close>; a negative one
  counts from the end.
\<close>

definition norm_axis :: "nat \<Rightarrow> int \<Rightarrow> error + nat" where
  "norm_axis r a =
     (if 0 \<le> a \<and> a < int r then Inr (nat a)
      else if a < 0 \<and> - int r \<le> a then Inr (nat (int r + a))
      else Inl IndexError)"

fun fftshift_loop :: "int list \<Rightarrow> tensor \<Rightarrow> error + tensor" where
  "fftshift_loop [] ret = Inr ret"
| "fftshift_loop (axis # axes) ret =
     and_then (norm_axis (rank ret) axis) (\<lambda>ax.
       fftshift_loop axes (roll (int (shape ret ! ax div 2)) ax ret))"

definition fftshift :: "tensor \<Rightarrow> int list option \<Rightarrow> error + tensor" where
  "fftshift tensor_in axes =
     (case axes of None \<Rightarrow> Inl TypeError | Some axes \<Rightarrow> fftshift_loop axes tensor_in)"

fun ifftshift_loop :: "int list \<Rightarrow> tensor \<Rightarrow> error + tensor" where
  "ifftshift_loop [] ret = Inr ret"
| "ifftshift_loop (axis # axes) ret =
     and_then (norm_axis (rank ret) axis) (\<lambda>ax.
       ifftshift_loop axes (roll (- 1 * int (shape ret ! ax div 2)) ax ret))"

definition ifftshift :: "tensor \<Rightarrow> int list option \<Rightarrow> error + tensor" where
  "ifftshift tensor_in axes =
     (case axes of None \<Rightarrow> Inl TypeError | Some axes \<Rightarrow> ifftshift_loop axes tensor_in)"


subsection \<open>Differentiable operators\<close>

text \<open>
  A \<open>torch.autograd.Function\<close> is a pair of functions: \<open>forward\<close> returns the
  tensors saved in the context together with the output, and \<open>backward\<close> takes the
  saved tensors and the output gradient.
\<close>

definition ComplexConj_forward :: "tensor \<Rightarrow> error + tensor" where
  "ComplexConj_forward tensor_in = conj_t tensor_in"

definition ComplexConj_backward :: "tensor \<Rightarrow> error + tensor" where
  "ComplexConj_backward grad_output = conj_t grad_output"

definition ComplexMul_forward :: "tensor \<Rightarrow> tensor \<Rightarrow> error + ((tensor \<times> tensor) \<times> tensor)" where
  "ComplexMul_forward input1 input2 =
     and_then (assert_complex input1) (\<lambda>_.
     and_then (assert_complex input2) (\<lambda>_.
     and_then (multiply_complex input1 input2) (\<lambda>output.
       Inr ((input1, input2), output))))"

text \<open>The reduction at the end of both binary backward passes.\<close>

definition reduce_grads :: "tensor \<Rightarrow> tensor \<Rightarrow> tensor \<Rightarrow> tensor \<Rightarrow> error + (tensor \<times> tensor)" where
  "reduce_grads input1 input2 grad_input1 grad_input2 =
     (if rank input1 > rank input2 then
        and_then (sum_axis 0 grad_input2) (\<lambda>grad_input2. Inr (grad_input1, grad_input2))
      else if rank input1 < rank input2 then
        and_then (sum_axis 0 grad_input1) (\<lambda>grad_input1. Inr (grad_input1, grad_input2))
      else Inr (grad_input1, grad_input2))"

text \<open>
  The backward passes of multiply and divide first compute both gradients
  (\<open>ComplexMul_products\<close>, \<open>ComplexDiv_products\<close>) and then reduce them.
\<close>

definition ComplexMul_products :: "tensor \<times> tensor \<Rightarrow> tensor \<Rightarrow> error + (tensor \<times> tensor)" where
  "ComplexMul_products saved grad_output =
     (case saved of (input1, input2) \<Rightarrow>
        and_then (conj_t input2) (\<lambda>c2.
        and_then (multiply_complex c2 grad_output) (\<lambda>grad_input1.
        and_then (conj_t input1) (\<lambda>c1.
        and_then (multiply_complex c1 grad_output) (\<lambda>grad_input2.
          Inr (grad_input1, grad_input2))))))"

definition ComplexMul_backward :: "tensor \<times> tensor \<Rightarrow> tensor \<Rightarrow> error + (tensor \<times> tensor)" where
  "ComplexMul_backward saved grad_output =
     and_then (ComplexMul_products saved grad_output) (\<lambda>(grad_input1, grad_input2).
       reduce_grads (fst saved) (snd saved) grad_input1 grad_input2)"

definition ComplexDiv_forward :: "tensor \<Rightarrow> tensor \<Rightarrow> error + ((tensor \<times> tensor) \<times> tensor)" where
  "ComplexDiv_forward input1 input2 =
     and_then (assert_complex input1) (\<lambda>_.
     and_then (assert_complex input2) (\<lambda>_.
     and_then (division_complex input1 input2) (\<lambda>output.
       Inr ((input1, input2), output))))"

definition ComplexDiv_products :: "tensor \<times> tensor \<Rightarrow> tensor \<Rightarrow> error + (tensor \<times> tensor)" where
  "ComplexDiv_products saved grad_output =
     (case saved of (input1, input2) \<Rightarrow>
        let denominator = sum_last (tmap (\<lambda>x. x ^ 2) input2) in
        and_then (inplace_last 0 (/) input2 denominator) (\<lambda>grad_input1.
        and_then (inplace_last 1 (/) grad_input1 denominator) (\<lambda>grad_input1.
        and_then (multiply_complex grad_input1 grad_output) (\<lambda>grad_input1.
        and_then (multiply_complex input2 input2) (\<lambda>sq.
        and_then (division_complex input1 sq) (\<lambda>q.
        and_then (conj_t q) (\<lambda>c.
        and_then (multiply_complex (tmap (\<lambda>x. - 1 * x) c) grad_output) (\<lambda>grad_input2.
          Inr (grad_input1, grad_input2)))))))))"

definition ComplexDiv_backward :: "tensor \<times> tensor \<Rightarrow> tensor \<Rightarrow> error + (tensor \<times> tensor)" where
  "ComplexDiv_backward saved grad_output =
     and_then (ComplexDiv_products saved grad_output) (\<lambda>(grad_input1, grad_input2).
       reduce_grads (fst saved) (snd saved) grad_input1 grad_input2)"

definition ComplexAbs_forward :: "tensor \<Rightarrow> error + (tensor \<times> tensor)" where
  "ComplexAbs_forward tensor_in =
     and_then (assert_complex tensor_in) (\<lambda>_.
       Inr (tensor_in, tmap sqrt (sum_last (tmap (\<lambda>x. x ^ 2) tensor_in))))"

definition ComplexAbs_backward :: "tensor \<Rightarrow> tensor \<Rightarrow> error + tensor" where
  "ComplexAbs_backward tensor_in grad_output =
     and_then (stack2 (rank grad_output) grad_output (tmap (\<lambda>x. 0) grad_output)) (\<lambda>grad_input.
     and_then (angle tensor_in) (\<lambda>phase_input.
     and_then (stack2 (rank grad_output) (tmap cos phase_input) (tmap sin phase_input)) (\<lambda>phase_input.
     and_then (multiply_complex phase_input grad_input) (\<lambda>grad_input.
       Inr (tmap (\<lambda>x. 0.5 * x) grad_input)))))"

definition ComplexAbs2_forward :: "tensor \<Rightarrow> error + (tensor \<times> tensor)" where
  "ComplexAbs2_forward tensor_in =
     and_then (assert_complex tensor_in) (\<lambda>_.
     and_then (conj_t tensor_in) (\<lambda>c.
     and_then (multiply_complex c tensor_in) (\<lambda>output.
     and_then (select_last 0 output) (\<lambda>re.
       Inr (tensor_in, re)))))"

definition ComplexAbs2_backward :: "tensor \<Rightarrow> tensor \<Rightarrow> error + tensor" where
  "ComplexAbs2_backward tensor_in grad_output =
     and_then (stack2 (rank grad_output) grad_output (tmap (\<lambda>x. 0) grad_output)) (\<lambda>grad_output_c.
       multiply_complex tensor_in grad_output_c)"

definition ComplexExp_forward :: "tensor \<Rightarrow> error + (tensor \<times> tensor)" where
  "ComplexExp_forward tensor_in =
     and_then (assert_complex tensor_in) (\<lambda>_.
     and_then (exp_t tensor_in) (\<lambda>output.
       Inr (output, output)))"

definition ComplexExp_backward :: "tensor \<Rightarrow> tensor \<Rightarrow> error + tensor" where
  "ComplexExp_backward output grad_output =
     and_then (conj_t output) (\<lambda>c. multiply_complex c grad_output)"

definition ComplexConv_forward ::
  "tensor \<Rightarrow> tensor \<Rightarrow> nat \<Rightarrow> bool \<Rightarrow> error + ((tensor \<times> nat \<times> bool) \<times> tensor)" where
  "ComplexConv_forward tensor_in kernel_in n_dim flag_inplace =
     and_then (convolve_kernel tensor_in kernel_in n_dim flag_inplace) (\<lambda>output.
       Inr ((kernel_in, n_dim, flag_inplace), output))"

definition ComplexConv_backward :: "tensor \<times> nat \<times> bool \<Rightarrow> tensor \<Rightarrow> error + (tensor \<times> tensor)" where
  "ComplexConv_backward saved grad_output =
     (case saved of (kernel_in, n_dim, flag_inplace) \<Rightarrow>
        and_then (conj_t kernel_in) (\<lambda>ck.
        and_then (convolve_kernel grad_output ck n_dim flag_inplace) (\<lambda>g1.
        and_then (conj_t grad_output) (\<lambda>cg.
        and_then (convolve_kernel cg kernel_in n_dim flag_inplace) (\<lambda>g2.
          Inr (g1, g2))))))"

section \<open>Propagation (propagation.py)\<close>

text \<open>\<open>F.apply\<close> runs \<open>F.forward\<close> and hands back its output.\<close>

definition complex_mul :: "tensor \<Rightarrow> tensor \<Rightarrow> error + tensor" where
  "complex_mul a b = and_then (ComplexMul_forward a b) (\<lambda>r. Inr (snd r))"

definition complex_exp :: "tensor \<Rightarrow> error + tensor" where
  "complex_exp a = and_then (ComplexExp_forward a) (\<lambda>r. Inr (snd r))"

definition complex_conj :: "tensor \<Rightarrow> error + tensor" where
  "complex_conj a = ComplexConj_forward a"

definition complex_conv :: "tensor \<Rightarrow> tensor \<Rightarrow> nat \<Rightarrow> bool \<Rightarrow> error + tensor" where
  "complex_conv a k n_dim flag_inplace =
     and_then (ComplexConv_forward a k n_dim flag_inplace) (\<lambda>r. Inr (snd r))"

subsection \<open>The defocus stack operator\<close>

text \<open>
  The defocus list is a Python list of floats (as the default \<open>[0.0]\<close> is) or a
  one-dimensional tensor of offsets; only the tensor has a \<open>clone\<close> method.
\<close>

datatype defocus_list = PyList "real list" | TensorList "real list"

fun offsets :: "defocus_list \<Rightarrow> real list" where
  "offsets (PyList xs) = xs"
| "offsets (TensorList xs) = xs"

text \<open>
  The loops of \<open>Defocus.forward\<close> and \<open>Defocus.backward\<close> over the indices of the
  defocus list; the stack of fields (and the list of offset gradients) is the state.
\<close>

fun Defocus_forward_loop :: "tensor \<Rightarrow> real list \<Rightarrow> nat list \<Rightarrow> tensor \<Rightarrow> error + tensor" where
  "Defocus_forward_loop kernel_t dl [] field = Inr field"
| "Defocus_forward_loop kernel_t dl (defocus_idx # idxs) field =
     and_then (exp_t (tmap (\<lambda>x. \<bar>dl ! defocus_idx\<bar> * x) kernel_t)) (\<lambda>kernel_temp.
     and_then (if dl ! defocus_idx > 0 then Inr kernel_temp else conj_t kernel_temp) (\<lambda>kernel_temp.
     and_then (select_first defocus_idx field) (\<lambda>slice.
     and_then (multiply_complex slice kernel_temp) (\<lambda>v.
     and_then (assign_first defocus_idx field v) (\<lambda>field.
       Defocus_forward_loop kernel_t dl idxs field)))))"

definition Defocus_forward ::
  "tensor \<Rightarrow> tensor \<Rightarrow> defocus_list \<Rightarrow> error + ((tensor \<times> tensor \<times> defocus_list) \<times> tensor)" where
  "Defocus_forward field kernel_t defocus_list =
     and_then (fft_t 2 field) (\<lambda>field.
       let saved = (kernel_t, field, defocus_list); dl = offsets defocus_list in
     and_then (unsqueeze 2 field) (\<lambda>field1.
     and_then (repeat [1, 1, length dl, 1] field1) (\<lambda>field2.
     and_then (permute [2, 0, 1, 3] field2) (\<lambda>field3.
     and_then (Defocus_forward_loop kernel_t dl [0..<length dl] field3) (\<lambda>field4.
     and_then (ifft_t 2 field4) (\<lambda>field5.
     and_then (permute [1, 2, 0, 3] field5) (\<lambda>field6.
       Inr (saved, field6))))))))"

fun Defocus_backward_loop ::
  "tensor \<Rightarrow> tensor \<Rightarrow> real list \<Rightarrow> nat list \<Rightarrow> tensor \<times> real list \<Rightarrow> error + (tensor \<times> real list)" where
  "Defocus_backward_loop kernel_t field dl [] st = Inr st"
| "Defocus_backward_loop kernel_t field dl (defocus_idx # idxs) (grad_output, grad_defocus_list) =
     and_then (exp_t (tmap (\<lambda>x. \<bar>dl ! defocus_idx\<bar> * x) kernel_t)) (\<lambda>kernel_temp.
     and_then (if dl ! defocus_idx < 0 then Inr kernel_temp else conj_t kernel_temp) (\<lambda>kernel_temp.
     and_then (select_first defocus_idx grad_output) (\<lambda>slice.
     and_then (multiply_complex slice kernel_temp) (\<lambda>v.
     and_then (assign_first defocus_idx grad_output v) (\<lambda>grad_output.
     and_then (select_first defocus_idx grad_output) (\<lambda>slice.
     and_then (conj_t field) (\<lambda>cf.
     and_then (multiply_complex slice cf) (\<lambda>m1.
     and_then (conj_t kernel_t) (\<lambda>ck.
     and_then (multiply_complex m1 ck) (\<lambda>m2.
     and_then (if rank m2 < 2 then Inl IndexError else sum_axis 0 m2) (\<lambda>s0.
     and_then (sum_axis 0 s0) (\<lambda>s01.
     and_then (select_first 0 s01) (\<lambda>val.
       if length (data val) = 1 \<and> defocus_idx < length grad_defocus_list
       then Defocus_backward_loop kernel_t field dl idxs
              (grad_output, grad_defocus_list[defocus_idx := hd (data val)])
       else Inl RuntimeError)))))))))))))"

definition Defocus_backward ::
  "tensor \<times> tensor \<times> defocus_list \<Rightarrow> tensor \<Rightarrow> error + (tensor \<times> real list)" where
  "Defocus_backward saved grad_output =
     (case saved of (kernel_t, field, defocus_list) \<Rightarrow>
        (case defocus_list of
           PyList xs \<Rightarrow> Inl AttributeError
         | TensorList dl \<Rightarrow>
            let grad_defocus_list = dl in
            and_then (permute [2, 0, 1, 3] grad_output) (\<lambda>g1.
            and_then (fft_t 2 g1) (\<lambda>g2.
            and_then (Defocus_backward_loop kernel_t field dl [0..<length dl]
                        (g2, grad_defocus_list)) (\<lambda>st.
            and_then (ifft_t 2 (fst st)) (\<lambda>g3.
            and_then (permute [1, 2, 0, 3] g3) (\<lambda>g4.
            and_then (sum_axis 2 g4) (\<lambda>temp_f.
            and_then (sum_axis 2 g4) (\<lambda>grad_field.
              Inr (grad_field, snd st))))))))))"

subsection \<open>Single-slice and multislice propagation\<close>

text \<open>
  The angular-spectrum kernel comes from \<open>generate_angular_spectrum_kernel\<close> of the
  module \<open>aperture\<close>; it is a parameter here.
\<close>

record SingleSlicePropagation =
  kernel_phase :: tensor

definition SingleSlicePropagation_forward ::
  "SingleSlicePropagation \<Rightarrow> tensor \<Rightarrow> real \<Rightarrow> error + tensor" where
  "SingleSlicePropagation_forward self field_in propagation_distance =
     (if propagation_distance = 0 then Inr field_in
      else
        and_then (complex_exp (tmap (\<lambda>x. \<bar>propagation_distance\<bar> * x) (kernel_phase self))) (\<lambda>kernel_t.
        and_then (if propagation_distance > 0 then Inr kernel_t else complex_conj kernel_t) (\<lambda>kernel_t.
          complex_conv field_in kernel_t 2 False)))"

text \<open>
  \<open>shape\<close> and \<open>voxel_size\<close> are read at the indices 0 to 2; they are triples here.
\<close>

record MultislicePropagation =
  ms_shape :: "nat \<times> nat \<times> nat"
  voxel_size :: "real \<times> real \<times> real"
  distance_to_center :: real
  propagate :: SingleSlicePropagation

definition MultislicePropagation_init ::
  "nat \<times> nat \<times> nat \<Rightarrow> real \<times> real \<times> real \<Rightarrow> tensor \<Rightarrow> MultislicePropagation" where
  "MultislicePropagation_init shp vs kernel_t =
     \<lparr> ms_shape = shp, voxel_size = vs,
       distance_to_center = (real (snd (snd shp)) / 2 - 1 / 2) * snd (snd vs),
       propagate = \<lparr> kernel_phase = kernel_t \<rparr> \<rparr>"

text \<open>\<open>obj[:,:,layer_idx,:]\<close>: four indices need at least four axes.\<close>

definition layer :: "tensor \<Rightarrow> nat \<Rightarrow> error + tensor" where
  "layer obj layer_idx = (if rank obj < 4 then Inl IndexError else select_axis 2 layer_idx obj)"

fun MultislicePropagation_loop ::
  "MultislicePropagation \<Rightarrow> tensor \<Rightarrow> nat list \<Rightarrow> tensor \<Rightarrow> error + tensor" where
  "MultislicePropagation_loop self obj [] field = Inr field"
| "MultislicePropagation_loop self obj (layer_idx # idxs) field =
     and_then (layer obj layer_idx) (\<lambda>l.
     and_then (complex_mul field l) (\<lambda>field.
     and_then (if int layer_idx < int (snd (snd (ms_shape self))) - 1
               then SingleSlicePropagation_forward (propagate self) field (snd (snd (voxel_size self)))
               else SingleSlicePropagation_forward (propagate self) field
                      (- 1 * distance_to_center self)) (\<lambda>field.
       MultislicePropagation_loop self obj idxs field)))"

definition MultislicePropagation_forward ::
  "MultislicePropagation \<Rightarrow> tensor \<Rightarrow> tensor option \<Rightarrow> error + tensor" where
  "MultislicePropagation_forward self obj field_in =
     and_then (case field_in of
                 None \<Rightarrow> layer obj 0
               | Some field \<Rightarrow> and_then (layer obj 0) (\<lambda>l. complex_mul field l)) (\<lambda>field.
     and_then (SingleSlicePropagation_forward (propagate self) field (snd (snd (voxel_size self)))) (\<lambda>field.
       MultislicePropagation_loop self obj [1..<snd (snd (ms_shape self))] field))"

section \<open>Reference definitions for the claims\<close>

text \<open>
  The unit phasor of a complex tensor, \<open>(cos(angle(z)), sin(angle(z)))\<close>, as a complex
  tensor.
\<close>

definition unit_phasor :: "tensor \<Rightarrow> error + tensor" where
  "unit_phasor z =
     and_then (angle z) (\<lambda>p. stack2 (rank p) (tmap cos p) (tmap sin p))"

text \<open>
  A tensor summed over axis 0, written out elementwise: the tensor of the remaining axes
  whose element at \<open>u\<close> is the sum of the elements at \<open>i # u\<close>.
\<close>

definition summed_over_axis0 :: "tensor \<Rightarrow> tensor" where
  "summed_over_axis0 t =
     tabulate (tl (shape t)) (\<lambda>u. \<Sum>i\<leftarrow>[0..<hd (shape t)]. elem t (i # u))"

text \<open>
  Multislice propagation as the specification words it: for the layers \<open>i = 0 .. L-1\<close> in
  order, multiply the current field by the transmission of layer \<open>i\<close>, then propagate
  by the spacing \<open>s\<close> after every layer but the last and by \<open>-(L/2 - 1/2) * s\<close> after the
  last one. Without an input field, the field starts as layer 0 and the multiplication
  of layer 0 is skipped.
\<close>

definition spec_distance :: "MultislicePropagation \<Rightarrow> nat \<Rightarrow> real" where
  "spec_distance self i =
     (if Suc i < snd (snd (ms_shape self)) then snd (snd (voxel_size self))
      else - ((real (snd (snd (ms_shape self))) / 2 - 1 / 2) * snd (snd (voxel_size self))))"

fun multislice_spec_loop ::
  "MultislicePropagation \<Rightarrow> tensor \<Rightarrow> nat list \<Rightarrow> tensor \<Rightarrow> error + tensor" where
  "multislice_spec_loop self obj [] field = Inr field"
| "multislice_spec_loop self obj (i # idxs) field =
     and_then (layer obj i) (\<lambda>l.
     and_then (complex_mul field l) (\<lambda>field.
     and_then (SingleSlicePropagation_forward (propagate self) field (spec_distance self i)) (\<lambda>field.
       multislice_spec_loop self obj idxs field)))"

definition multislice_spec ::
  "MultislicePropagation \<Rightarrow> tensor \<Rightarrow> tensor option \<Rightarrow> error + tensor" where
  "multislice_spec self obj field_in =
     (case field_in of
        Some field \<Rightarrow> multislice_spec_loop self obj [0..<snd (snd (ms_shape self))] field
      | None \<Rightarrow>
          and_then (layer obj 0) (\<lambda>field.
          and_then (SingleSlicePropagation_forward (propagate self) field (spec_distance self 0)) (\<lambda>field.
            multislice_spec_loop self obj [1..<snd (snd (ms_shape self))] field)))"

text \<open>
  The kernel the defocus stack operator applies for one offset, in two wordings: the
  exponential of the kernel phase scaled by the absolute offset, conjugated when the
  offset is not positive (\<open>defocus_kernel\<close>), and the same conjugated when the offset
  is positive (\<open>claimed_defocus_kernel\<close>).
\<close>

definition defocus_kernel :: "tensor \<Rightarrow> real \<Rightarrow> error + tensor" where
  "defocus_kernel kernel_t d =
     and_then (exp_t (tmap (\<lambda>x. \<bar>d\<bar> * x) kernel_t)) (\<lambda>k. if d \<le> 0 then conj_t k else Inr k)"

definition claimed_defocus_kernel :: "tensor \<Rightarrow> real \<Rightarrow> error + tensor" where
  "claimed_defocus_kernel kernel_t d =
     and_then (exp_t (tmap (\<lambda>x. \<bar>d\<bar> * x) kernel_t)) (\<lambda>k. if 0 < d then conj_t k else Inr k)"

section \<open>Closed forms used in the proofs\<close>

text \<open>
  The values of \<open>exp\<close>, \<open>conj\<close> and \<open>multiply_complex\<close> on complex tensors of equal
  shape, and the tensor whose slice \<open>i\<close> along a new leading axis is \<open>G i\<close>.
\<close>

definition exp_values :: "tensor \<Rightarrow> tensor" where
  "exp_values t =
     tabulate (shape t)
       (\<lambda>u. if last u = 0
            then exp (elem t (butlast u @ [0])) * cos (elem t (butlast u @ [1]))
            else exp (elem t (butlast u @ [0])) * sin (elem t (butlast u @ [1])))"

definition conj_values :: "tensor \<Rightarrow> tensor" where
  "conj_values t = tabulate (shape t) (\<lambda>u. if last u = 1 then elem t u * (- 1) else elem t u)"

definition cmul :: "tensor \<Rightarrow> tensor \<Rightarrow> tensor" where
  "cmul a b =
     tabulate (shape a)
       (\<lambda>u. if last u = 0
            then elem a (butlast u @ [0]) * elem b (butlast u @ [0])
               - elem a (butlast u @ [1]) * elem b (butlast u @ [1])
            else elem a (butlast u @ [0]) * elem b (butlast u @ [1])
               + elem a (butlast u @ [1]) * elem b (butlast u @ [0]))"

definition kernel_temp_values :: "tensor \<Rightarrow> real \<Rightarrow> tensor" where
  "kernel_temp_values kernel_t d =
     (if 0 < d then exp_values (tmap (\<lambda>x. \<bar>d\<bar> * x) kernel_t)
      else conj_values (exp_values (tmap (\<lambda>x. \<bar>d\<bar> * x) kernel_t)))"

definition batch :: "nat \<Rightarrow> nat list \<Rightarrow> (nat \<Rightarrow> tensor) \<Rightarrow> tensor" where
  "batch n s G = tabulate (n # s) (\<lambda>u. elem (G (hd u)) (tl u))"

text \<open>The two-axis transforms of a tensor of shape \<open>[H, W, 2]\<close>, written out.\<close>

definition fft2 :: "tensor \<Rightarrow> tensor" where
  "fft2 t = dft_axis False 1 (dft_axis False 0 t)"

definition ifft2 :: "tensor \<Rightarrow> tensor" where
  "ifft2 t = dft_axis True 0 (dft_axis True 1 t)"

text \<open>
  The stack of fields of shape \<open>[H, W, n, 2]\<close> whose slice \<open>i\<close> along axis 2 is the field
  \<open>R i\<close> of shape \<open>[H, W, 2]\<close>.
\<close>

definition defocus_output :: "nat \<Rightarrow> nat \<Rightarrow> nat \<Rightarrow> (nat \<Rightarrow> tensor) \<Rightarrow> tensor" where
  "defocus_output n H W R = tabulate [H, W, n, 2] (\<lambda>u. elem (R (u ! 2)) [u ! 0, u ! 1, u ! 3])"

section \<open>Basic facts about tensors\<close>

lemma and_then_simps [simp]:
  "and_then (Inl e) f = Inl e" "and_then (Inr x) f = f x"
  by (simp_all add: and_then_def)

lemma and_then_assoc: "and_then (and_then m f) g = and_then m (\<lambda>x. and_then (f x) g)"
  by (cases m) simp_all

lemma shape_tabulate [simp]: "shape (tabulate s f) = s"
  by (simp add: tabulate_def)

lemma wf_tabulate [simp]: "wf_tensor (tabulate s f)"
  by (simp add: tabulate_def wf_tensor_def)

lemma rank_tabulate [simp]: "rank (tabulate s f) = length s"
  by (simp add: rank_def)

lemma idx_ok_Nil [simp]: "idx_ok [] u \<longleftrightarrow> u = []"
  by (simp add: idx_ok_def)

lemma idx_ok_Cons: "idx_ok (n # s) u \<longleftrightarrow> (\<exists>i v. u = i # v \<and> i < n \<and> idx_ok s v)"
  by (cases u) (auto simp: idx_ok_def)

lemma idx_ok_Cons_Cons [simp]: "idx_ok (n # s) (i # v) \<longleftrightarrow> i < n \<and> idx_ok s v"
  by (simp add: idx_ok_def)

lemma idx_ok_length: "idx_ok s u \<Longrightarrow> length u = length s"
  by (simp add: idx_ok_def list_all2_lengthD)

lemma idx_ok_nth: "idx_ok s u \<Longrightarrow> k < length s \<Longrightarrow> u ! k < s ! k"
  by (simp add: idx_ok_def list_all2_nthD2)

lemma idx_ok_iff: "idx_ok s u \<longleftrightarrow> length u = length s \<and> (\<forall>k<length s. u ! k < s ! k)"
  by (auto simp: idx_ok_def list_all2_conv_all_nth)

lemma idx_ok_update:
  "idx_ok s u \<Longrightarrow> ax < length s \<Longrightarrow> k < s ! ax \<Longrightarrow> idx_ok s (u[ax := k])"
  by (auto simp: idx_ok_iff nth_list_update)

lemma unravel_ok: "p < prod_list s \<Longrightarrow> idx_ok s (unravel s p)"
proof (induction s arbitrary: p)
  case Nil
  then show ?case by simp
next
  case (Cons n s)
  from Cons.prems have pos: "0 < prod_list s"
    by (cases "prod_list s = 0") auto
  from Cons.prems have "p div prod_list s < n"
    by (simp add: less_mult_imp_div_less mult.commute)
  moreover have "p mod prod_list s < prod_list s" using pos by simp
  ultimately show ?case using Cons.IH by simp
qed

lemma ravel_unravel: "p < prod_list s \<Longrightarrow> ravel s (unravel s p) = p"
proof (induction s arbitrary: p)
  case Nil
  then show ?case by simp
next
  case (Cons n s)
  from Cons.prems have pos: "0 < prod_list s"
    by (cases "prod_list s = 0") auto
  then have "ravel s (unravel s (p mod prod_list s)) = p mod prod_list s"
    using Cons.IH by simp
  then show ?case by simp
qed

lemma ravel_lt: "idx_ok s u \<Longrightarrow> ravel s u < prod_list s"
proof (induction s arbitrary: u)
  case Nil
  then show ?case by simp
next
  case (Cons n s)
  then obtain i v where u: "u = i # v" "i < n" "idx_ok s v"
    by (auto simp: idx_ok_Cons)
  then have "ravel s v < prod_list s" using Cons.IH by simp
  moreover have "i * prod_list s + prod_list s \<le> n * prod_list s"
    using u(2) by (metis Suc_leI mult_Suc mult_le_mono1 add.commute)
  ultimately show ?case using u by simp
qed

lemma unravel_ravel: "idx_ok s u \<Longrightarrow> unravel s (ravel s u) = u"
proof (induction s arbitrary: u)
  case Nil
  then show ?case by simp
next
  case (Cons n s)
  then obtain i v where u: "u = i # v" "i < n" "idx_ok s v"
    by (auto simp: idx_ok_Cons)
  have lt: "ravel s v < prod_list s" using u(3) by (rule ravel_lt)
  then show ?case using u Cons.IH by simp
qed

lemma elem_tabulate: "idx_ok s u \<Longrightarrow> elem (tabulate s f) u = f u"
  by (simp add: elem_def tabulate_def ravel_lt unravel_ravel)

lemma tabulate_cong: "(\<And>u. idx_ok s u \<Longrightarrow> f u = g u) \<Longrightarrow> tabulate s f = tabulate s g"
  by (simp add: tabulate_def unravel_ok)

lemma tabulate_elem: "wf_tensor t \<Longrightarrow> tabulate (shape t) (elem t) = t"
  by (cases t) (auto simp: tabulate_def elem_def wf_tensor_def ravel_unravel intro!: nth_equalityI)

lemma tensor_eqI:
  assumes "wf_tensor a" "wf_tensor b" "shape a = shape b"
    and "\<And>u. idx_ok (shape a) u \<Longrightarrow> elem a u = elem b u"
  shows "a = b"
proof -
  have "tabulate (shape a) (elem a) = tabulate (shape a) (elem b)"
    using assms(4) by (rule tabulate_cong)
  then have "tabulate (shape a) (elem a) = tabulate (shape b) (elem b)"
    using assms(3) by simp
  then have "a = tabulate (shape b) (elem b)"
    by (simp only: tabulate_elem[OF assms(1)])
  then show ?thesis
    by (simp only: tabulate_elem[OF assms(2)])
qed

lemma broadcast_rev_Nil2 [simp]: "broadcast_rev xs [] = Some xs"
  by (cases xs) simp_all

lemma broadcast_shapes_Nil2 [simp]: "broadcast_shapes s [] = Some s"
  by (simp add: broadcast_shapes_def)

lemma shape_scalar [simp]: "shape (scalar c) = []"
  by (simp add: scalar_def)

lemma elem_scalar [simp]: "elem (scalar c) u = c"
  by (simp add: elem_def scalar_def)

lemma butlast_take_drop: "s \<noteq> [] \<Longrightarrow> take (length s - 1) s @ drop (Suc (length s - 1)) s = butlast s"
  by (simp add: butlast_conv_take)

lemma inplace_last_scalar:
  assumes "rank t \<noteq> 0" "k < last (shape t)"
  shows "inplace_last k f t (scalar c) = Inr (tabulate (shape t)
           (\<lambda>u. if u ! (rank t - 1) = k then f (elem t u) c else elem t u))"
proof -
  have ne: "shape t \<noteq> []" using assms(1) by (auto simp: rank_def)
  then have l: "shape t ! (length (shape t) - 1) = last (shape t)"
    by (simp add: last_conv_nth)
  have lt: "\<not> length (shape t) \<le> length (shape t) - 1" using ne by (cases "shape t") auto
  show ?thesis
    using assms l lt
    by (simp add: inplace_last_def inplace_axis_def rank_def Let_def cong: if_cong del: One_nat_def)
qed

lemma conj_t_eq:
  assumes "rank z \<noteq> 0" "1 < last (shape z)"
  shows "conj_t z = Inr (tabulate (shape z)
           (\<lambda>u. if u ! (rank z - 1) = 1 then elem z u * (- 1) else elem z u))"
  using assms by (simp add: conj_t_def inplace_last_scalar del: One_nat_def)

subsection \<open>Evaluation on concrete tensors\<close>

lemmas eval_defs = rank_def elem_def tabulate_def tmap_def broadcast_shapes_def bidx_def
  broadcast_op_def select_axis_def select_last_def select_first_def inplace_axis_def
  inplace_last_def strip_ones_def assign_axis_def assign_last_def assign_first_def scalar_def stack2_def sum_axis_def
  sum_last_def roll_def unsqueeze_def repeat_def permute_def cat_def dft_axis_def fft_t_def
  ifft_t_def conj_t_def angle_def exp_t_def multiply_complex_def division_complex_def
  assert_complex_def abs_t_def convolve_kernel_def upt_conv_Cons Let_def

lemma and_then_weak_cong: "m = m' \<Longrightarrow> and_then m f = and_then m' f"
  by simp

subsection \<open>Closed forms of the engine's operations\<close>

lemma and_then_eq_Inr: "and_then m f = Inr r \<longleftrightarrow> (\<exists>x. m = Inr x \<and> f x = Inr r)"
  by (cases m) simp_all

lemma idx_ok_snoc: "idx_ok (s @ [n]) u \<longleftrightarrow> (\<exists>v k. u = v @ [k] \<and> idx_ok s v \<and> k < n)"
proof
  assume "idx_ok (s @ [n]) u"
  then obtain us vs where u: "u = us @ vs" "length vs = 1" "list_all2 (\<lambda>i n. i < n) us s"
      "list_all2 (\<lambda>i n. i < n) vs [n]"
    unfolding idx_ok_def list_all2_append2 by auto
  from u(2) obtain k where vs: "vs = [k]" by (cases vs) auto
  with u show "\<exists>v k. u = v @ [k] \<and> idx_ok s v \<and> k < n"
    by (auto simp: idx_ok_def)
next
  assume "\<exists>v k. u = v @ [k] \<and> idx_ok s v \<and> k < n"
  then show "idx_ok (s @ [n]) u"
    by (auto simp: idx_ok_def intro: list_all2_appendI)
qed

lemma idx_ok_snoc_snoc [simp]: "idx_ok (s @ [n]) (v @ [k]) \<longleftrightarrow> idx_ok s v \<and> k < n"
  by (auto simp: idx_ok_snoc)

lemma tmap_tabulate: "tmap f (tabulate s g) = tabulate s (\<lambda>u. f (g u))"
  by (simp add: tmap_def tabulate_def)

lemma shape_tmap [simp]: "shape (tmap f t) = shape t"
  by (simp add: tmap_def)

lemma rank_tmap [simp]: "rank (tmap f t) = rank t"
  by (simp add: rank_def)

lemma wf_tmap [simp]: "wf_tensor (tmap f t) \<longleftrightarrow> wf_tensor t"
  by (simp add: tmap_def wf_tensor_def)

lemma elem_tmap: "wf_tensor t \<Longrightarrow> idx_ok (shape t) u \<Longrightarrow> elem (tmap f t) u = f (elem t u)"
  using ravel_lt[of "shape t" u] by (simp add: elem_def tmap_def wf_tensor_def)

lemma select_last_eq:
  assumes "shape t = s @ [n]" "k < n"
  shows "select_last k t = Inr (tabulate s (\<lambda>u. elem t (u @ [k])))"
proof -
  have "tabulate s (\<lambda>u. elem t (take (length s) u @ [k] @ drop (length s) u))
      = tabulate s (\<lambda>u. elem t (u @ [k]))"
    by (rule tabulate_cong) (simp add: idx_ok_length)
  then show ?thesis
    using assms by (simp add: select_last_def select_axis_def rank_def)
qed

lemma broadcast_rev_same [simp]: "broadcast_rev xs xs = Some xs"
  by (induction xs) simp_all

lemma broadcast_shapes_same [simp]: "broadcast_shapes s s = Some s"
  by (simp add: broadcast_shapes_def)

lemma bidx_same: "idx_ok s u \<Longrightarrow> bidx s u = u"
proof -
  assume "idx_ok s u"
  then have "list_all2 (\<lambda>i n. i < n) u s" by (simp add: idx_ok_def)
  then have "map2 (\<lambda>n i. if n = 1 then 0 else i) s u = u"
    by (induction rule: list_all2_induct) auto
  moreover have "length u = length s" using \<open>idx_ok s u\<close> by (rule idx_ok_length)
  ultimately show ?thesis by (simp add: bidx_def)
qed

lemma broadcast_op_same:
  assumes "shape a = s" "shape b = s"
  shows "broadcast_op f a b = Inr (tabulate s (\<lambda>u. f (elem a u) (elem b u)))"
proof -
  have "tabulate s (\<lambda>u. f (elem a (bidx s u)) (elem b (bidx s u)))
      = tabulate s (\<lambda>u. f (elem a u) (elem b u))"
    by (rule tabulate_cong) (simp add: bidx_same)
  then show ?thesis using assms by (simp add: broadcast_op_def)
qed

lemma stack2_last:
  assumes "shape a = s" "shape b = s"
  shows "stack2 (length s) a b
       = Inr (tabulate (s @ [2]) (\<lambda>u. elem (if last u = 0 then a else b) (butlast u)))"
proof -
  have "tabulate (s @ [2]) (\<lambda>u. elem (if u ! length s = 0 then a else b)
            (take (length s) u @ drop (Suc (length s)) u))
      = tabulate (s @ [2]) (\<lambda>u. elem (if last u = 0 then a else b) (butlast u))"
  proof (rule tabulate_cong)
    fix u assume "idx_ok (s @ [2]) u"
    then obtain v k where u: "u = v @ [k]" "idx_ok s v" by (auto simp: idx_ok_snoc)
    then have "length v = length s" by (simp add: idx_ok_length)
    then show "elem (if u ! length s = 0 then a else b) (take (length s) u @ drop (Suc (length s)) u)
        = elem (if last u = 0 then a else b) (butlast u)"
      using u by (simp add: nth_append)
  qed
  then show ?thesis using assms by (simp add: stack2_def rank_def)
qed

lemma multiply_complex_same:
  assumes "shape a = s @ [2]" "shape b = s @ [2]"
  shows "multiply_complex a b = Inr (tabulate (s @ [2])
     (\<lambda>u. if last u = 0
          then elem a (butlast u @ [0]) * elem b (butlast u @ [0])
             - elem a (butlast u @ [1]) * elem b (butlast u @ [1])
          else elem a (butlast u @ [0]) * elem b (butlast u @ [1])
             + elem a (butlast u @ [1]) * elem b (butlast u @ [0])))"
proof -
  let ?re = "tabulate s (\<lambda>u. elem a (u @ [0]) * elem b (u @ [0]) - elem a (u @ [1]) * elem b (u @ [1]))"
  let ?im = "tabulate s (\<lambda>u. elem a (u @ [0]) * elem b (u @ [1]) + elem a (u @ [1]) * elem b (u @ [0]))"
  have sel: "select_last 0 a = Inr (tabulate s (\<lambda>u. elem a (u @ [0])))"
    "select_last 1 a = Inr (tabulate s (\<lambda>u. elem a (u @ [1])))"
    "select_last 0 b = Inr (tabulate s (\<lambda>u. elem b (u @ [0])))"
    "select_last 1 b = Inr (tabulate s (\<lambda>u. elem b (u @ [1])))"
    using assms by (simp_all add: select_last_eq)
  have bop: "\<And>f g h. broadcast_op f (tabulate s g) (tabulate s h) = Inr (tabulate s (\<lambda>u. f (g u) (h u)))"
  proof -
    fix f g h
    have "tabulate s (\<lambda>u. f (elem (tabulate s g) u) (elem (tabulate s h) u)) = tabulate s (\<lambda>u. f (g u) (h u))"
      by (rule tabulate_cong) (simp add: elem_tabulate)
    then show "broadcast_op f (tabulate s g) (tabulate s h) = Inr (tabulate s (\<lambda>u. f (g u) (h u)))"
      by (simp add: broadcast_op_same[of _ s])
  qed
  have st: "stack2 (length s) ?re ?im = Inr (tabulate (s @ [2])
     (\<lambda>u. if last u = 0
          then elem a (butlast u @ [0]) * elem b (butlast u @ [0])
             - elem a (butlast u @ [1]) * elem b (butlast u @ [1])
          else elem a (butlast u @ [0]) * elem b (butlast u @ [1])
             + elem a (butlast u @ [1]) * elem b (butlast u @ [0])))"
  proof -
    have "tabulate (s @ [2]) (\<lambda>u. elem (if last u = 0 then ?re else ?im) (butlast u))
      = tabulate (s @ [2])
     (\<lambda>u. if last u = 0
          then elem a (butlast u @ [0]) * elem b (butlast u @ [0])
             - elem a (butlast u @ [1]) * elem b (butlast u @ [1])
          else elem a (butlast u @ [0]) * elem b (butlast u @ [1])
             + elem a (butlast u @ [1]) * elem b (butlast u @ [0]))"
      by (rule tabulate_cong) (auto simp: idx_ok_snoc elem_tabulate)
    then show ?thesis by (simp only: stack2_last[OF shape_tabulate shape_tabulate])
  qed
  show ?thesis
    by (simp add: multiply_complex_def sel bop st del: One_nat_def)
qed

lemma broadcast_op_tabulate:
  "broadcast_op f (tabulate s g) (tabulate s h) = Inr (tabulate s (\<lambda>u. f (g u) (h u)))"
proof -
  have "tabulate s (\<lambda>u. f (elem (tabulate s g) u) (elem (tabulate s h) u)) = tabulate s (\<lambda>u. f (g u) (h u))"
    by (rule tabulate_cong) (simp add: elem_tabulate)
  then show ?thesis
    by (simp add: broadcast_op_same[of _ s])
qed

lemma idx_ok_remove:
  "idx_ok s u \<Longrightarrow> idx_ok (take ax s @ drop (Suc ax) s) (take ax u @ drop (Suc ax) u)"
  unfolding idx_ok_def by (intro list_all2_appendI list_all2_takeI list_all2_dropI)

lemma broadcast_rev_prefix: "broadcast_rev (xs @ ys) xs = Some (xs @ ys)"
  by (induction xs) simp_all

lemma broadcast_shapes_strip:
  "broadcast_shapes s (dropWhile (\<lambda>n. n = 1) s) = Some s"
proof -
  have "rev s = rev (dropWhile (\<lambda>n. n = 1) s) @ rev (takeWhile (\<lambda>n. n = 1) s)"
    by (metis rev_append takeWhile_dropWhile_id)
  then have "broadcast_rev (rev s) (rev (dropWhile (\<lambda>n. n = 1) s)) = Some (rev s)"
    using broadcast_rev_prefix[of "rev (dropWhile (\<lambda>n. n = 1) s)" "rev (takeWhile (\<lambda>n. n = 1) s)"]
    by simp
  then show ?thesis by (simp add: broadcast_shapes_def)
qed

lemma ravel_strip:
  "idx_ok s w \<Longrightarrow>
     ravel (dropWhile (\<lambda>n. n = 1) s) (bidx (dropWhile (\<lambda>n. n = 1) s) w) = ravel s w"
proof (induction s arbitrary: w)
  case Nil
  then show ?case by (simp add: bidx_def)
next
  case (Cons n s)
  then obtain i v where w: "w = i # v" "i < n" "idx_ok s v" by (auto simp: idx_ok_Cons)
  show ?case
  proof (cases "n = 1")
    case True
    have len: "length (dropWhile (\<lambda>n. n = 1) s) \<le> length v"
      using w(3) by (simp add: idx_ok_length length_dropWhile_le)
    then have "drop (length w - length (dropWhile (\<lambda>n. n = 1) s)) w
        = drop (length v - length (dropWhile (\<lambda>n. n = 1) s)) v"
      using w(1) by (simp add: Suc_diff_le)
    then have "bidx (dropWhile (\<lambda>n. n = 1) s) w = bidx (dropWhile (\<lambda>n. n = 1) s) v"
      by (simp add: bidx_def)
    then show ?thesis using True w Cons.IH[OF w(3)] by simp
  next
    case False
    then show ?thesis using Cons.prems by (simp add: bidx_same)
  qed
qed

lemma elem_strip_ones:
  "shape v = s \<Longrightarrow> idx_ok s w \<Longrightarrow>
     elem (strip_ones v) (bidx (shape (strip_ones v)) w) = elem v w"
  by (simp add: elem_def strip_ones_def ravel_strip del: One_nat_def)

lemma assign_axis_eq:
  assumes "ax < rank t" "i < shape t ! ax" "shape v = take ax (shape t) @ drop (Suc ax) (shape t)"
  shows "assign_axis ax i t v = Inr (tabulate (shape t)
           (\<lambda>u. if u ! ax = i then elem v (take ax u @ drop (Suc ax) u) else elem t u))"
proof -
  have "tabulate (shape t) (\<lambda>u. if u ! ax = i
            then elem (strip_ones v) (bidx (shape (strip_ones v)) (take ax u @ drop (Suc ax) u))
            else elem t u)
      = tabulate (shape t)
           (\<lambda>u. if u ! ax = i then elem v (take ax u @ drop (Suc ax) u) else elem t u)"
  proof (rule tabulate_cong)
    fix u assume "idx_ok (shape t) u"
    then have "idx_ok (shape v) (take ax u @ drop (Suc ax) u)"
      unfolding assms(3) by (rule idx_ok_remove)
    then show "(if u ! ax = i
            then elem (strip_ones v) (bidx (shape (strip_ones v)) (take ax u @ drop (Suc ax) u))
            else elem t u)
        = (if u ! ax = i then elem v (take ax u @ drop (Suc ax) u) else elem t u)"
      by (simp add: elem_strip_ones)
  qed
  moreover have "broadcast_shapes (take ax (shape t) @ drop (Suc ax) (shape t)) (shape (strip_ones v))
      = Some (take ax (shape t) @ drop (Suc ax) (shape t))"
    unfolding assms(3)[symmetric]
    by (simp add: strip_ones_def broadcast_shapes_strip del: One_nat_def)
  ultimately show ?thesis
    using assms(1,2) by (simp add: assign_axis_def inplace_axis_def Let_def)
qed

lemma assign_last_eq:
  assumes "shape t = s @ [n]" "k < n" "shape v = s"
  shows "assign_last k t v = Inr (tabulate (s @ [n])
           (\<lambda>u. if last u = k then elem v (butlast u) else elem t u))"
proof -
  have "tabulate (shape t) (\<lambda>u. if u ! length s = k
            then elem v (take (length s) u @ drop (Suc (length s)) u) else elem t u)
      = tabulate (s @ [n]) (\<lambda>u. if last u = k then elem v (butlast u) else elem t u)"
    unfolding assms(1)
  proof (rule tabulate_cong)
    fix u assume "idx_ok (s @ [n]) u"
    then obtain w j where u: "u = w @ [j]" "idx_ok s w" by (auto simp: idx_ok_snoc)
    then have "length w = length s" by (simp add: idx_ok_length)
    then show "(if u ! length s = k
            then elem v (take (length s) u @ drop (Suc (length s)) u) else elem t u)
        = (if last u = k then elem v (butlast u) else elem t u)"
      using u by (simp add: nth_append)
  qed
  moreover have "assign_axis (length s) k t v = Inr (tabulate (shape t) (\<lambda>u. if u ! length s = k
            then elem v (take (length s) u @ drop (Suc (length s)) u) else elem t u))"
    using assms by (intro assign_axis_eq) (simp_all add: rank_def)
  ultimately show ?thesis
    using assms(1) by (simp add: assign_last_def rank_def)
qed

lemma inplace_last_eq:
  assumes "shape t = s @ [n]" "k < n" "shape v = s"
  shows "inplace_last k f t v = Inr (tabulate (s @ [n])
           (\<lambda>u. if last u = k then f (elem t u) (elem v (butlast u)) else elem t u))"
proof -
  have "tabulate (s @ [n]) (\<lambda>u. if u ! length s = k
            then f (elem t u) (elem v (bidx (shape v) (take (length s) u @ drop (Suc (length s)) u)))
            else elem t u)
      = tabulate (s @ [n]) (\<lambda>u. if last u = k then f (elem t u) (elem v (butlast u)) else elem t u)"
  proof (rule tabulate_cong)
    fix u assume "idx_ok (s @ [n]) u"
    then obtain w j where u: "u = w @ [j]" "idx_ok s w" by (auto simp: idx_ok_snoc)
    then have "length w = length s" by (simp add: idx_ok_length)
    then show "(if u ! length s = k
            then f (elem t u) (elem v (bidx (shape v) (take (length s) u @ drop (Suc (length s)) u)))
            else elem t u)
        = (if last u = k then f (elem t u) (elem v (butlast u)) else elem t u)"
      using u assms(3) by (simp add: nth_append bidx_same)
  qed
  then show ?thesis
    using assms by (simp add: inplace_last_def inplace_axis_def rank_def Let_def)
qed

lemma conj_t_values: "shape t = s @ [2] \<Longrightarrow> conj_t t = Inr (conj_values t)"
  using conj_t_eq[of t]
proof -
  assume s: "shape t = s @ [2]"
  have "tabulate (shape t) (\<lambda>u. if u ! (rank t - 1) = 1 then elem t u * (- 1) else elem t u)
      = tabulate (shape t) (\<lambda>u. if last u = 1 then elem t u * (- 1) else elem t u)"
  proof (rule tabulate_cong)
    fix u assume "idx_ok (shape t) u"
    then obtain w j where u: "u = w @ [j]" "idx_ok s w" using s by (auto simp: idx_ok_snoc)
    then have "length w = length s" by (simp add: idx_ok_length)
    then show "(if u ! (rank t - 1) = 1 then elem t u * (- 1) else elem t u)
        = (if last u = 1 then elem t u * (- 1) else elem t u)"
      using u s by (simp add: rank_def nth_append)
  qed
  then show ?thesis
    using conj_t_eq[of t] s by (simp add: conj_values_def rank_def)
qed

lemma shape_conj_values [simp]: "shape (conj_values t) = shape t"
  by (simp add: conj_values_def)

lemma wf_conj_values [simp]: "wf_tensor (conj_values t)"
  by (simp add: conj_values_def)

lemma shape_exp_values [simp]: "shape (exp_values t) = shape t"
  by (simp add: exp_values_def)

lemma wf_exp_values [simp]: "wf_tensor (exp_values t)"
  by (simp add: exp_values_def)

lemma shape_cmul [simp]: "shape (cmul a b) = shape a"
  by (simp add: cmul_def)

lemma wf_cmul [simp]: "wf_tensor (cmul a b)"
  by (simp add: cmul_def)

lemma multiply_complex_cmul:
  "shape a = s @ [2] \<Longrightarrow> shape b = s @ [2] \<Longrightarrow> multiply_complex a b = Inr (cmul a b)"
  by (simp add: multiply_complex_same cmul_def)

lemma exp_t_values:
  assumes "shape t = s @ [2]"
  shows "exp_t t = Inr (exp_values t)"
proof -
  let ?re = "tabulate s (\<lambda>u. elem t (u @ [0]))"
  let ?im = "tabulate s (\<lambda>u. elem t (u @ [1]))"
  let ?v0 = "tabulate s (\<lambda>u. exp (elem t (u @ [0])) * cos (elem t (u @ [1])))"
  let ?v1 = "tabulate s (\<lambda>u. exp (elem t (u @ [0])) * sin (elem t (u @ [1])))"
  let ?o = "tabulate (s @ [2]) (\<lambda>u. if last u = 0 then elem ?v0 (butlast u) else elem t u)"
  have sel: "select_last 0 t = Inr ?re" "select_last 1 t = Inr ?im"
    using assms by (simp_all add: select_last_eq)
  have v0: "broadcast_op (*) (tmap exp ?re) (tmap cos ?im) = Inr ?v0"
    by (simp add: tmap_tabulate broadcast_op_tabulate)
  have v1: "broadcast_op (*) (tmap exp ?re) (tmap sin ?im) = Inr ?v1"
    by (simp add: tmap_tabulate broadcast_op_tabulate)
  have a0: "assign_last 0 t ?v0 = Inr ?o"
    using assms by (subst assign_last_eq[of _ s 2]) simp_all
  have a1: "assign_last 1 ?o ?v1 = Inr (tabulate (s @ [2])
       (\<lambda>u. if last u = 1 then elem ?v1 (butlast u) else elem ?o u))"
    by (subst assign_last_eq[of _ s 2]) simp_all
  have fin: "tabulate (s @ [2]) (\<lambda>u. if last u = 1 then elem ?v1 (butlast u) else elem ?o u)
      = exp_values t"
    unfolding exp_values_def assms
  proof (rule tabulate_cong)
    fix u assume "idx_ok (s @ [2]) u"
    then obtain w j where u: "u = w @ [j]" "idx_ok s w" "j < 2" by (auto simp: idx_ok_snoc)
    then have "j = 0 \<or> j = 1" by auto
    then show "(if last u = 1 then elem ?v1 (butlast u) else elem ?o u)
       = (if last u = 0 then exp (elem t (butlast u @ [0])) * cos (elem t (butlast u @ [1]))
          else exp (elem t (butlast u @ [0])) * sin (elem t (butlast u @ [1])))"
      using u by (auto simp: elem_tabulate)
  qed
  show ?thesis
    unfolding exp_t_def sel and_then_simps Let_def v0 v1 a0 a1 fin ..
qed

subsection \<open>The discrete Fourier transform and its inverse\<close>

lemma sum_list_upt: "(\<Sum>k\<leftarrow>[0..<N]. f k) = (\<Sum>k<N. f k)"
  by (simp add: interv_sum_list_conv_sum_set_nat atLeast0LessThan)

lemma cis_root_neq_1:
  assumes "a < N" "m < N" "a \<noteq> m"
  shows "cis (2 * pi * (real a - real m) / real N) \<noteq> 1"
proof
  assume "cis (2 * pi * (real a - real m) / real N) = 1"
  then have "cos (2 * pi * (real a - real m) / real N) = 1"
    by (simp add: complex_eq_iff)
  then obtain j :: int where j: "2 * pi * (real a - real m) / real N = of_int j * 2 * pi"
    unfolding cos_one_2pi_int by auto
  have N: "0 < real N" using assms(1) by simp
  from j have "(2 * pi) * ((real a - real m) / real N) = (2 * pi) * of_int j"
    by (simp add: mult.commute)
  then have "(real a - real m) / real N = of_int j"
    by (simp only: mult_cancel_left) (use pi_gt_zero in auto)
  then have "real a - real m = of_int j * real N"
    using N by (simp add: field_simps)
  then have "real_of_int (int a - int m) = real_of_int (j * int N)"
    by simp
  then have eq: "int a - int m = j * int N"
    by (simp only: of_int_eq_iff)
  have "\<bar>int a - int m\<bar> < int N" using assms by auto
  then have "\<bar>j\<bar> * int N < 1 * int N" using eq by (simp add: abs_mult)
  then have "\<bar>j\<bar> < 1" using N by (simp add: mult_less_cancel_right)
  then have "j = 0" by simp
  with eq assms(3) show False by simp
qed

lemma root_sum:
  assumes "a < N" "m < N"
  shows "(\<Sum>k<N. cis (2 * pi * (real a - real m) / real N) ^ k) = (if a = m then of_nat N else 0)"
proof (cases "a = m")
  case True
  then show ?thesis by simp
next
  case False
  let ?w = "cis (2 * pi * (real a - real m) / real N)"
  have w: "?w \<noteq> 1" using assms False by (rule cis_root_neq_1)
  have N: "0 < real N" using assms(1) by simp
  have "?w ^ N = cis (real N * (2 * pi * (real a - real m) / real N))"
    by (simp only: DeMoivre)
  also have "real N * (2 * pi * (real a - real m) / real N) = 2 * pi * (real a - real m)"
    using N by simp
  also have "cis (2 * pi * (real a - real m)) = 1"
    by (rule cis_multiple_2pi) auto
  finally have "?w ^ N = 1" .
  then have "(\<Sum>k<N. ?w ^ k) = 0"
    using w by (simp add: geometric_sum)
  with False show ?thesis by simp
qed

lemma cat_dft_axis:
  assumes "shape t = cs @ [2]" "idx_ok cs v" "ax < length cs"
  shows "cat (dft_axis inv_flag ax t) v =
     (let z = (\<Sum>m<cs ! ax. cat t (v[ax := m]) *
                 cis ((if inv_flag then 1 else - 1) * (2 * pi * real (v ! ax) * real m / real (cs ! ax))))
      in if inv_flag then z / of_nat (cs ! ax) else z)"
proof -
  have len: "length v = length cs" using assms(2) by (rule idx_ok_length)
  have ok: "idx_ok (shape t) (v @ [0])" "idx_ok (shape t) (v @ [1])"
    using assms by simp_all
  have n: "shape t ! ax = cs ! ax" using assms by (simp add: nth_append)
  have va: "(v @ [c]) ! ax = v ! ax" for c using assms(3) len by (simp add: nth_append)
  define w where "w = (let z = (\<Sum>m<cs ! ax. cat t (v[ax := m]) *
                 cis ((if inv_flag then 1 else - 1) * (2 * pi * real (v ! ax) * real m / real (cs ! ax))))
      in if inv_flag then z / of_nat (cs ! ax) else z)"
  have e0: "elem (dft_axis inv_flag ax t) (v @ [0]) = Re w"
    unfolding dft_axis_def elem_tabulate[OF ok(1)] w_def
    by (simp add: n va Let_def sum_list_upt)
  have e1: "elem (dft_axis inv_flag ax t) (v @ [1]) = Im w"
    unfolding dft_axis_def elem_tabulate[OF ok(2)] w_def
    by (simp add: n va Let_def sum_list_upt)
  have "cat (dft_axis inv_flag ax t) v = w"
    unfolding cat_def e0 e1 by simp
  then show ?thesis by (simp only: w_def)
qed

lemma shape_dft_axis [simp]: "shape (dft_axis i ax t) = shape t"
  by (simp add: dft_axis_def)

lemma wf_dft_axis [simp]: "wf_tensor (dft_axis i ax t)"
  by (simp add: dft_axis_def)

lemma rank_dft_axis [simp]: "rank (dft_axis i ax t) = rank t"
  by (simp add: rank_def)

lemma complex_tensor_eqI:
  assumes "wf_tensor a" "wf_tensor b" "shape a = cs @ [2]" "shape b = cs @ [2]"
    and c: "\<And>v. idx_ok cs v \<Longrightarrow> cat a v = cat b v"
  shows "a = b"
proof (rule tensor_eqI)
  show "wf_tensor a" "wf_tensor b" by fact+
  show "shape a = shape b" using assms(3,4) by simp
  fix u assume "idx_ok (shape a) u"
  then obtain v k where u: "u = v @ [k]" "idx_ok cs v" "k < 2"
    using assms(3) by (auto simp: idx_ok_snoc)
  from c[OF u(2)] have "elem a (v @ [0]) = elem b (v @ [0])" "elem a (v @ [1]) = elem b (v @ [1])"
    by (simp_all add: cat_def)
  moreover have "k = 0 \<or> k = 1" using u(3) by auto
  ultimately show "elem a u = elem b u" using u(1) by auto
qed

lemma dft_axis_inverse:
  assumes "wf_tensor t" "shape t = cs @ [2]" "ax < length cs"
  shows "dft_axis True ax (dft_axis False ax t) = t"
proof (rule complex_tensor_eqI[where cs = cs])
  show "wf_tensor (dft_axis True ax (dft_axis False ax t))" by simp
  show "wf_tensor t" by fact
  show "shape (dft_axis True ax (dft_axis False ax t)) = cs @ [2]" using assms(2) by simp
  show "shape t = cs @ [2]" by fact
  fix v assume v: "idx_ok cs v"
  let ?N = "cs ! ax"
  let ?a = "v ! ax"
  let ?x = "\<lambda>m. cat t (v[ax := m])"
  have len: "ax < length v" using v assms(3) by (simp add: idx_ok_length)
  have a: "?a < ?N" using v assms(3) by (rule idx_ok_nth)
  then have N: "0 < real ?N" by simp
  have inner: "cat (dft_axis False ax t) (v[ax := k])
      = (\<Sum>m<?N. ?x m * cis (- (2 * pi * real k * real m / real ?N)))" if "k < ?N" for k
  proof -
    have "idx_ok cs (v[ax := k])" using v assms(3) that by (rule idx_ok_update)
    then show ?thesis
      using len by (simp add: cat_dft_axis[OF assms(2) _ assms(3)])
  qed
  have w: "cis (- (2 * pi * real k * real m / real ?N)) * cis (2 * pi * real ?a * real k / real ?N)
      = cis (2 * pi * (real ?a - real m) / real ?N) ^ k" for k m
  proof -
    have "- (2 * pi * real k * real m / real ?N) + 2 * pi * real ?a * real k / real ?N
        = real k * (2 * pi * (real ?a - real m) / real ?N)"
      by (simp add: algebra_simps diff_divide_distrib)
    then show ?thesis by (simp only: cis_mult DeMoivre)
  qed
  have "cat (dft_axis True ax (dft_axis False ax t)) v
      = (\<Sum>k<?N. cat (dft_axis False ax t) (v[ax := k]) * cis (2 * pi * real ?a * real k / real ?N))
          / of_nat ?N"
    using assms(2) by (simp add: cat_dft_axis[OF _ v assms(3)])
  also have "(\<Sum>k<?N. cat (dft_axis False ax t) (v[ax := k]) * cis (2 * pi * real ?a * real k / real ?N))
      = (\<Sum>k<?N. (\<Sum>m<?N. ?x m * cis (- (2 * pi * real k * real m / real ?N)))
                    * cis (2 * pi * real ?a * real k / real ?N))"
    by (rule sum.cong) (simp_all add: inner)
  also have "\<dots> = (\<Sum>k<?N. \<Sum>m<?N. ?x m * (cis (2 * pi * (real ?a - real m) / real ?N) ^ k))"
    by (simp only: sum_distrib_right mult.assoc[where 'a = complex] w)
  also have "\<dots> = (\<Sum>m<?N. \<Sum>k<?N. ?x m * (cis (2 * pi * (real ?a - real m) / real ?N) ^ k))"
    by (rule sum.swap)
  also have "\<dots> = (\<Sum>m<?N. ?x m * (\<Sum>k<?N. cis (2 * pi * (real ?a - real m) / real ?N) ^ k))"
    by (simp only: sum_distrib_left)
  also have "\<dots> = (\<Sum>m<?N. ?x m * (if ?a = m then of_nat ?N else 0))"
    by (rule sum.cong) (simp_all add: root_sum[OF a])
  also have "\<dots> = (\<Sum>m<?N. if m = ?a then ?x m * of_nat ?N else 0)"
    by (rule sum.cong) auto
  also have "\<dots> = ?x ?a * of_nat ?N"
    using a by (simp add: sum.delta)
  finally have "cat (dft_axis True ax (dft_axis False ax t)) v = ?x ?a"
    using N by simp
  then show "cat (dft_axis True ax (dft_axis False ax t)) v = cat t v"
    by simp
qed

lemma ifft2_fft2:
  assumes "wf_tensor t" "shape t = [H, W, 2]"
  shows "ifft2 (fft2 t) = t"
proof -
  have s: "shape t = [H, W] @ [2]" using assms(2) by simp
  have "dft_axis True 1 (dft_axis False 1 (dft_axis False 0 t)) = dft_axis False 0 t"
    by (rule dft_axis_inverse[where cs = "[H, W]"]) (simp_all add: s)
  moreover have "dft_axis True 0 (dft_axis False 0 t) = t"
    using assms(1) s by (rule dft_axis_inverse) simp
  ultimately show ?thesis by (simp add: ifft2_def fft2_def)
qed

lemma shape_batch [simp]: "shape (batch n s G) = n # s"
  by (simp add: batch_def)

lemma wf_batch [simp]: "wf_tensor (batch n s G)"
  by (simp add: batch_def)

lemma elem_batch: "i < n \<Longrightarrow> idx_ok s w \<Longrightarrow> elem (batch n s G) (i # w) = elem (G i) w"
  by (simp add: batch_def elem_tabulate)

lemma cat_batch: "i < n \<Longrightarrow> idx_ok cs w \<Longrightarrow> cat (batch n (cs @ [2]) G) (i # w) = cat (G i) w"
  by (simp add: cat_def elem_batch)

lemma batch_cong: "(\<And>i. i < n \<Longrightarrow> wf_tensor (G i) \<and> wf_tensor (G' i) \<and> shape (G i) = s \<and> shape (G' i) = s \<and> G i = G' i)
    \<Longrightarrow> batch n s G = batch n s G'"
  unfolding batch_def by (rule tabulate_cong) (auto simp: idx_ok_Cons)

lemma dft_axis_batch:
  assumes sh: "\<And>i. i < n \<Longrightarrow> shape (G i) = cs @ [2]" and ax: "ax < length cs"
  shows "dft_axis inv_flag (Suc ax) (batch n (cs @ [2]) G)
       = batch n (cs @ [2]) (\<lambda>i. dft_axis inv_flag ax (G i))"
proof (rule complex_tensor_eqI[where cs = "n # cs"])
  show "wf_tensor (dft_axis inv_flag (Suc ax) (batch n (cs @ [2]) G))" by simp
  show "wf_tensor (batch n (cs @ [2]) (\<lambda>i. dft_axis inv_flag ax (G i)))" by simp
  show "shape (dft_axis inv_flag (Suc ax) (batch n (cs @ [2]) G)) = (n # cs) @ [2]" by simp
  show "shape (batch n (cs @ [2]) (\<lambda>i. dft_axis inv_flag ax (G i))) = (n # cs) @ [2]" by simp
  fix v assume "idx_ok (n # cs) v"
  then obtain i w where v: "v = i # w" "i < n" "idx_ok cs w" by (auto simp: idx_ok_Cons)
  have len: "ax < length w" using v(3) ax by (simp add: idx_ok_length)
  have l: "cat (dft_axis inv_flag (Suc ax) (batch n (cs @ [2]) G)) (i # w)
     = (let z = (\<Sum>m<cs ! ax. cat (batch n (cs @ [2]) G) ((i # w)[Suc ax := m]) *
                 cis ((if inv_flag then 1 else - 1) * (2 * pi * real ((i # w) ! Suc ax) * real m / real (cs ! ax))))
      in if inv_flag then z / of_nat (cs ! ax) else z)"
    using cat_dft_axis[of "batch n (cs @ [2]) G" "n # cs" "i # w" "Suc ax" inv_flag] v ax by simp
  have r: "cat (batch n (cs @ [2]) (\<lambda>i. dft_axis inv_flag ax (G i))) (i # w)
     = (let z = (\<Sum>m<cs ! ax. cat (G i) (w[ax := m]) *
                 cis ((if inv_flag then 1 else - 1) * (2 * pi * real (w ! ax) * real m / real (cs ! ax))))
      in if inv_flag then z / of_nat (cs ! ax) else z)"
    using v ax by (simp add: cat_batch cat_dft_axis[OF sh[OF v(2)] v(3) ax])
  have "(\<Sum>m<cs ! ax. cat (batch n (cs @ [2]) G) ((i # w)[Suc ax := m]) *
                 cis ((if inv_flag then 1 else - 1) * (2 * pi * real ((i # w) ! Suc ax) * real m / real (cs ! ax))))
      = (\<Sum>m<cs ! ax. cat (G i) (w[ax := m]) *
                 cis ((if inv_flag then 1 else - 1) * (2 * pi * real (w ! ax) * real m / real (cs ! ax))))"
  proof (rule sum.cong)
    fix m assume "m \<in> {..<cs ! ax}"
    then have "idx_ok cs (w[ax := m])" using v(3) ax by (simp add: idx_ok_update)
    then show "cat (batch n (cs @ [2]) G) ((i # w)[Suc ax := m]) *
                 cis ((if inv_flag then 1 else - 1) * (2 * pi * real ((i # w) ! Suc ax) * real m / real (cs ! ax)))
        = cat (G i) (w[ax := m]) *
                 cis ((if inv_flag then 1 else - 1) * (2 * pi * real (w ! ax) * real m / real (cs ! ax)))"
      using v(2) by (simp add: cat_batch)
  qed simp
  then show "cat (dft_axis inv_flag (Suc ax) (batch n (cs @ [2]) G)) v
      = cat (batch n (cs @ [2]) (\<lambda>i. dft_axis inv_flag ax (G i))) v"
    unfolding v(1) l r by simp
qed


section \<open>Properties of the complex operators\<close>

text \<open>
  Claim C9. For every complex tensor \<open>z\<close> (trailing axis of size 2), conjugating twice
  gives \<open>z\<close> back exactly: \<open>conj\<close> only negates the imaginary channel of a copy of
  its input.
\<close>

theorem conj_involution:
  assumes "wf_tensor z" "rank z \<noteq> 0" "last (shape z) = 2"
  shows "and_then (conj_t z) conj_t = Inr z"
proof -
  let ?c = "tabulate (shape z) (\<lambda>u. if u ! (rank z - 1) = 1 then elem z u * (- 1) else elem z u)"
  have 1: "conj_t z = Inr ?c" using assms by (simp add: conj_t_eq)
  have 2: "conj_t ?c = Inr (tabulate (shape z)
      (\<lambda>u. if u ! (rank z - 1) = 1 then elem ?c u * (- 1) else elem ?c u))"
    using assms by (subst conj_t_eq) (simp_all add: rank_def)
  have "tabulate (shape z) (\<lambda>u. if u ! (rank z - 1) = 1 then elem ?c u * (- 1) else elem ?c u)
      = tabulate (shape z) (elem z)"
    by (rule tabulate_cong) (simp add: elem_tabulate)
  then show ?thesis using 1 2 assms(1) by (simp add: tabulate_elem)
qed

theorem conj_involution_witness:
  "wf_tensor (Tensor [1, 2] [3, 4]) \<and> rank (Tensor [1, 2] [3, 4]) \<noteq> 0
   \<and> last (shape (Tensor [1, 2] [3, 4])) = 2
   \<and> and_then (conj_t (Tensor [1, 2] [3, 4])) conj_t = Inr (Tensor [1, 2] [3, 4])"
  using conj_involution [of "Tensor [1, 2] [3, 4]"]
  by (simp add: wf_tensor_def rank_def)

subsection \<open>Shape checks\<close>

lemma assert_complex_fails:
  "rank t = 0 \<or> last (shape t) \<noteq> 2 \<Longrightarrow>
     assert_complex t = Inl (if rank t = 0 then IndexError else AssertionError)"
  by (auto simp: assert_complex_def)

lemma isl_and_then_assert:
  "rank t = 0 \<or> last (shape t) \<noteq> 2 \<Longrightarrow> isl (and_then (assert_complex a) (\<lambda>_. and_then (assert_complex t) f))"
  by (cases "assert_complex a") (auto simp: assert_complex_fails)

lemma select_last_fails:
  "rank t = 0 \<or> last (shape t) \<le> k \<Longrightarrow> select_last k t = Inl IndexError"
proof (cases "shape t = []")
  case True
  then show ?thesis by (simp add: select_last_def rank_def)
next
  case False
  moreover assume "rank t = 0 \<or> last (shape t) \<le> k"
  ultimately show ?thesis
    by (simp add: select_last_def select_axis_def rank_def last_conv_nth)
qed

lemma inplace_last_fails:
  "rank t = 0 \<or> last (shape t) \<le> k \<Longrightarrow> inplace_last k f t v = Inl IndexError"
proof (cases "shape t = []")
  case True
  then show ?thesis by (simp add: inplace_last_def rank_def)
next
  case False
  moreover assume "rank t = 0 \<or> last (shape t) \<le> k"
  ultimately show ?thesis
    by (simp add: inplace_last_def inplace_axis_def rank_def last_conv_nth)
qed

lemma isl_and_then: "isl m \<Longrightarrow> isl (and_then m f)"
  by (cases m) simp_all

lemma isl_and_then2: "(\<And>x. m = Inr x \<Longrightarrow> isl (f x)) \<Longrightarrow> isl (and_then m f)"
  by (cases m) simp_all

lemma short_axis_fails:
  assumes "rank t = 0 \<or> last (shape t) < 2"
  shows "isl (conj_t t)" "isl (angle t)" "isl (exp_t t)"
    "isl (multiply_complex t b)" "isl (multiply_complex a t)"
    "isl (division_complex t b)" "isl (division_complex a t)"
proof -
  have s1: "select_last 1 t = Inl IndexError"
    using assms by (intro select_last_fails) auto
  show "isl (conj_t t)"
    using assms inplace_last_fails[of t 1] by (auto simp: conj_t_def)
  show "isl (angle t)"
    unfolding angle_def s1 by simp
  show "isl (exp_t t)"
    unfolding exp_t_def Let_def s1 by (intro isl_and_then2) simp
  show "isl (multiply_complex t b)"
    unfolding multiply_complex_def s1 by (intro isl_and_then2) simp
  show "isl (multiply_complex a t)"
    unfolding multiply_complex_def s1 by (intro isl_and_then2) simp
  show "isl (division_complex t b)"
    unfolding division_complex_def Let_def s1 by (intro isl_and_then2) simp
  show "isl (division_complex a t)"
    unfolding division_complex_def Let_def s1 by (intro isl_and_then2) simp
qed

lemma broadcast_rev_absorb: "broadcast_rev xs ys = Some r \<Longrightarrow> broadcast_rev r ys = Some r"
  by (induction xs ys arbitrary: r rule: broadcast_rev.induct) (auto split: if_splits)

lemma broadcast_shapes_absorb:
  "broadcast_shapes a b = Some r \<Longrightarrow> broadcast_shapes r b = Some r"
  using broadcast_rev_absorb[of "rev a" "rev b" "rev r"]
  by (auto simp: broadcast_shapes_def)

lemma broadcast_op_Some:
  "broadcast_shapes (shape a) (shape b) = Some r \<Longrightarrow> \<exists>c. broadcast_op f a b = Inr c \<and> shape c = r"
  by (simp add: broadcast_op_def)

lemma broadcast_op_None:
  "broadcast_shapes (shape a) (shape b) = None \<Longrightarrow> broadcast_op f a b = Inl RuntimeError"
  by (simp add: broadcast_op_def)

lemma select_last_Inr:
  assumes "shape t = s @ [n]" "k < n"
  shows "\<exists>c. select_last k t = Inr c \<and> shape c = s"
  using select_last_eq[OF assms] by simp

lemma assign_last_Inr:
  assumes "shape t = s @ [n]" "k < n" "shape v = s"
  shows "\<exists>c. assign_last k t v = Inr c \<and> shape c = s @ [n]"
  using assign_last_eq[OF assms] by simp

lemma shape_snoc: "rank t \<noteq> 0 \<Longrightarrow> shape t = butlast (shape t) @ [last (shape t)]"
  by (simp add: rank_def)

lemma long_axis_succeeds:
  assumes "rank t \<noteq> 0" "2 \<le> last (shape t)"
  shows "\<not> isl (conj_t t)" "\<not> isl (angle t)" "\<not> isl (exp_t t)"
proof -
  let ?s = "butlast (shape t)" and ?n = "last (shape t)"
  have s: "shape t = ?s @ [?n]" using assms(1) by (rule shape_snoc)
  have k: "0 < ?n" "1 < ?n" using assms(2) by simp_all
  show "\<not> isl (conj_t t)"
    using conj_t_eq[OF assms(1) k(2)] by simp
  obtain re where re: "select_last 0 t = Inr re" "shape re = ?s"
    using select_last_Inr[OF s k(1)] by blast
  obtain im where im: "select_last 1 t = Inr im" "shape im = ?s"
    using select_last_Inr[OF s k(2)] by blast
  show "\<not> isl (angle t)"
    using broadcast_op_Some[of im re ?s atan2] re im by (auto simp: angle_def simp del: One_nat_def)
  obtain v0 where v0: "broadcast_op (*) (tmap exp re) (tmap cos im) = Inr v0" "shape v0 = ?s"
    using broadcast_op_Some[of "tmap exp re" "tmap cos im" ?s "(*)"] re im by auto
  obtain v1 where v1: "broadcast_op (*) (tmap exp re) (tmap sin im) = Inr v1" "shape v1 = ?s"
    using broadcast_op_Some[of "tmap exp re" "tmap sin im" ?s "(*)"] re im by auto
  obtain out where out: "assign_last 0 t v0 = Inr out" "shape out = ?s @ [?n]"
    using assign_last_Inr[OF s k(1) v0(2)] by blast
  obtain out2 where out2: "assign_last 1 out v1 = Inr out2"
    using assign_last_Inr[OF out(2) k(2) v1(2)] by blast
  show "\<not> isl (exp_t t)"
    by (simp add: exp_t_def Let_def re im v0 v1 out out2 del: One_nat_def)
qed

lemma binary_shapes:
  assumes "shape a = sa @ [na]" "2 \<le> na" "shape b = sb @ [nb]" "2 \<le> nb"
  shows "broadcast_shapes sa sb \<noteq> None \<Longrightarrow> \<not> isl (multiply_complex a b)"
    "broadcast_shapes sa sb \<noteq> None \<Longrightarrow> \<not> isl (division_complex a b)"
    "broadcast_shapes sa sb = None \<Longrightarrow> isl (multiply_complex a b)"
    "broadcast_shapes sa sb = None \<Longrightarrow> isl (division_complex a b)"
proof -
  have ka: "0 < na" "1 < na" and kb: "0 < nb" "1 < nb" using assms(2,4) by simp_all
  obtain a0 where a0: "select_last 0 a = Inr a0" "shape a0 = sa"
    using select_last_Inr[OF assms(1) ka(1)] by blast
  obtain a1 where a1: "select_last 1 a = Inr a1" "shape a1 = sa"
    using select_last_Inr[OF assms(1) ka(2)] by blast
  obtain b0 where b0: "select_last 0 b = Inr b0" "shape b0 = sb"
    using select_last_Inr[OF assms(3) kb(1)] by blast
  obtain b1 where b1: "select_last 1 b = Inr b1" "shape b1 = sb"
    using select_last_Inr[OF assms(3) kb(2)] by blast
  {
    assume "broadcast_shapes sa sb = None"
    then have "broadcast_op (*) a0 b0 = Inl RuntimeError"
      using a0 b0 by (intro broadcast_op_None) simp
    then show "isl (multiply_complex a b)" "isl (division_complex a b)"
      by (simp_all add: multiply_complex_def division_complex_def Let_def a0 b0)
  }
  {
    assume "broadcast_shapes sa sb \<noteq> None"
    then obtain r where r: "broadcast_shapes sa sb = Some r" by auto
    have bin: "\<exists>c. broadcast_op f x y = Inr c \<and> shape c = r" if "shape x = sa" "shape y = sb" for f x y
      using that r by (intro broadcast_op_Some) simp
    have same: "\<exists>c. broadcast_op f x y = Inr c \<and> shape c = r" if "shape x = r" "shape y = r" for f x y
      using that by (intro broadcast_op_Some) simp
    have den: "\<exists>c. broadcast_op f x y = Inr c \<and> shape c = r" if "shape x = r" "shape y = sb" for f x y
      using that broadcast_shapes_absorb[OF r] by (intro broadcast_op_Some) simp
    obtain p00 where p00: "broadcast_op (*) a0 b0 = Inr p00" "shape p00 = r"
      using bin[OF a0(2) b0(2)] by blast
    obtain p11 where p11: "broadcast_op (*) a1 b1 = Inr p11" "shape p11 = r"
      using bin[OF a1(2) b1(2)] by blast
    obtain p01 where p01: "broadcast_op (*) a0 b1 = Inr p01" "shape p01 = r"
      using bin[OF a0(2) b1(2)] by blast
    obtain p10 where p10: "broadcast_op (*) a1 b0 = Inr p10" "shape p10 = r"
      using bin[OF a1(2) b0(2)] by blast
    obtain mr where mr: "broadcast_op (-) p00 p11 = Inr mr" "shape mr = r"
      using same[OF p00(2) p11(2)] by blast
    obtain mi where mi: "broadcast_op (+) p01 p10 = Inr mi" "shape mi = r"
      using same[OF p01(2) p10(2)] by blast
    have st: "\<not> isl (stack2 (rank x) x y)" if "shape x = r" "shape y = r" for x y
      using that by (simp add: stack2_def rank_def)
    show "\<not> isl (multiply_complex a b)"
      using st[OF mr(2) mi(2)]
      by (simp add: multiply_complex_def a0 a1 b0 b1 p00 p11 p01 p10 mr mi del: One_nat_def)
    let ?den = "sum_last (tmap (\<lambda>x. x ^ 2) b)"
    have sd: "shape ?den = sb"
      using assms(3) by (simp add: sum_last_def rank_def)
    obtain nr where nr: "broadcast_op (+) p00 p11 = Inr nr" "shape nr = r"
      using same[OF p00(2) p11(2)] by blast
    obtain ni where ni: "broadcast_op (-) p10 p01 = Inr ni" "shape ni = r"
      using same[OF p10(2) p01(2)] by blast
    obtain dr where dr: "broadcast_op (/) nr ?den = Inr dr" "shape dr = r"
      using den[OF nr(2) sd] by blast
    obtain di where di: "broadcast_op (/) ni ?den = Inr di" "shape di = r"
      using den[OF ni(2) sd] by blast
    show "\<not> isl (division_complex a b)"
      using st[OF dr(2) di(2)]
      by (simp add: division_complex_def Let_def a0 a1 b0 b1 p00 p11 p01 p10 nr ni dr di del: One_nat_def)
  }
qed

lemma unary_fails_iff:
  "isl (conj_t t) \<longleftrightarrow> rank t = 0 \<or> last (shape t) < 2"
  "isl (angle t) \<longleftrightarrow> rank t = 0 \<or> last (shape t) < 2"
  "isl (exp_t t) \<longleftrightarrow> rank t = 0 \<or> last (shape t) < 2"
proof -
  have *: "rank t \<noteq> 0 \<and> 2 \<le> last (shape t)" if "\<not> (rank t = 0 \<or> last (shape t) < 2)"
    using that by simp
  show "isl (conj_t t) \<longleftrightarrow> rank t = 0 \<or> last (shape t) < 2"
    using short_axis_fails(1)[of t] long_axis_succeeds(1)[of t] * by blast
  show "isl (angle t) \<longleftrightarrow> rank t = 0 \<or> last (shape t) < 2"
    using short_axis_fails(2)[of t] long_axis_succeeds(2)[of t] * by blast
  show "isl (exp_t t) \<longleftrightarrow> rank t = 0 \<or> last (shape t) < 2"
    using short_axis_fails(3)[of t] long_axis_succeeds(3)[of t] * by blast
qed

lemma binary_fails_iff:
  "isl (multiply_complex a b) \<longleftrightarrow>
     rank a = 0 \<or> last (shape a) < 2 \<or> rank b = 0 \<or> last (shape b) < 2
     \<or> broadcast_shapes (butlast (shape a)) (butlast (shape b)) = None"
  "isl (division_complex a b) \<longleftrightarrow>
     rank a = 0 \<or> last (shape a) < 2 \<or> rank b = 0 \<or> last (shape b) < 2
     \<or> broadcast_shapes (butlast (shape a)) (butlast (shape b)) = None"
proof -
  consider "rank a = 0 \<or> last (shape a) < 2" | "rank b = 0 \<or> last (shape b) < 2"
    | "rank a \<noteq> 0" "2 \<le> last (shape a)" "rank b \<noteq> 0" "2 \<le> last (shape b)"
    by linarith
  then have both: "(isl (multiply_complex a b) \<longleftrightarrow>
       rank a = 0 \<or> last (shape a) < 2 \<or> rank b = 0 \<or> last (shape b) < 2
       \<or> broadcast_shapes (butlast (shape a)) (butlast (shape b)) = None)
     \<and> (isl (division_complex a b) \<longleftrightarrow>
       rank a = 0 \<or> last (shape a) < 2 \<or> rank b = 0 \<or> last (shape b) < 2
       \<or> broadcast_shapes (butlast (shape a)) (butlast (shape b)) = None)"
  proof cases
    case 1
    then show ?thesis
      using short_axis_fails(4)[of a b] short_axis_fails(6)[of a b] by blast
  next
    case 2
    then show ?thesis
      using short_axis_fails(5)[of b a] short_axis_fails(7)[of b a] by blast
  next
    case 3
    note sh = shape_snoc[OF 3(1)] 3(2) shape_snoc[OF 3(3)] 3(4)
    have n: "\<not> (rank a = 0 \<or> last (shape a) < 2)" "\<not> (rank b = 0 \<or> last (shape b) < 2)"
      using 3 by simp_all
    show ?thesis
      using binary_shapes(1)[OF sh] binary_shapes(2)[OF sh] binary_shapes(3)[OF sh]
        binary_shapes(4)[OF sh] n
      by blast
  qed
  show "isl (multiply_complex a b) \<longleftrightarrow>
     rank a = 0 \<or> last (shape a) < 2 \<or> rank b = 0 \<or> last (shape b) < 2
     \<or> broadcast_shapes (butlast (shape a)) (butlast (shape b)) = None"
    by (rule both[THEN conjunct1])
  show "isl (division_complex a b) \<longleftrightarrow>
     rank a = 0 \<or> last (shape a) < 2 \<or> rank b = 0 \<or> last (shape b) < 2
     \<or> broadcast_shapes (butlast (shape a)) (butlast (shape b)) = None"
    by (rule both[THEN conjunct2])
qed

text \<open>
  Claim C3, as the code has it. The check of the trailing axis is made by \<open>abs\<close> and by
  the forward passes of the differentiable multiply, divide, abs, abs-squared and exp:
  each of them fails at once, with an assertion error (an index error when the tensor has
  no axis at all), whenever the trailing axis of a complex argument is not of size 2.
  The primitives \<open>conj\<close>, \<open>angle\<close>, \<open>exp\<close>, \<open>multiply_complex\<close> and
  \<open>division_complex\<close> and the differentiable conjugate make no check. \<open>conj\<close>, the
  differentiable conjugate, \<open>angle\<close> and \<open>exp\<close> fail exactly when the tensor has no
  axis or its trailing axis has fewer than two entries, where channel 1 cannot be read.
  \<open>multiply_complex\<close> and \<open>division_complex\<close> fail exactly when this holds of one of
  the two arguments or the shapes of the arguments without their trailing axes cannot be
  broadcast together. In every other case, so on every trailing axis of more than two
  entries, they compute a result.
\<close>

theorem shape_check_enforced:
  "(rank t = 0 \<or> last (shape t) \<noteq> 2 \<longrightarrow>
      abs_t t = Inl (if rank t = 0 then IndexError else AssertionError)
    \<and> ComplexAbs_forward t = Inl (if rank t = 0 then IndexError else AssertionError)
    \<and> ComplexAbs2_forward t = Inl (if rank t = 0 then IndexError else AssertionError)
    \<and> ComplexExp_forward t = Inl (if rank t = 0 then IndexError else AssertionError)
    \<and> ComplexMul_forward t b = Inl (if rank t = 0 then IndexError else AssertionError)
    \<and> ComplexDiv_forward t b = Inl (if rank t = 0 then IndexError else AssertionError)
    \<and> isl (ComplexMul_forward a t)
    \<and> isl (ComplexDiv_forward a t))
   \<and> (isl (conj_t t) \<longleftrightarrow> rank t = 0 \<or> last (shape t) < 2)
   \<and> (isl (ComplexConj_forward t) \<longleftrightarrow> rank t = 0 \<or> last (shape t) < 2)
   \<and> (isl (angle t) \<longleftrightarrow> rank t = 0 \<or> last (shape t) < 2)
   \<and> (isl (exp_t t) \<longleftrightarrow> rank t = 0 \<or> last (shape t) < 2)
   \<and> (isl (multiply_complex a b) \<longleftrightarrow>
        rank a = 0 \<or> last (shape a) < 2 \<or> rank b = 0 \<or> last (shape b) < 2
        \<or> broadcast_shapes (butlast (shape a)) (butlast (shape b)) = None)
   \<and> (isl (division_complex a b) \<longleftrightarrow>
        rank a = 0 \<or> last (shape a) < 2 \<or> rank b = 0 \<or> last (shape b) < 2
        \<or> broadcast_shapes (butlast (shape a)) (butlast (shape b)) = None)"
proof (intro conjI impI)
  assume h: "rank t = 0 \<or> last (shape t) \<noteq> 2"
  show "isl (ComplexMul_forward a t)"
    unfolding ComplexMul_forward_def by (rule isl_and_then_assert[OF h])
  show "isl (ComplexDiv_forward a t)"
    unfolding ComplexDiv_forward_def by (rule isl_and_then_assert[OF h])
  show "abs_t t = Inl (if rank t = 0 then IndexError else AssertionError)"
    using h by (simp add: abs_t_def assert_complex_fails)
  show "ComplexAbs_forward t = Inl (if rank t = 0 then IndexError else AssertionError)"
    using h by (simp add: ComplexAbs_forward_def assert_complex_fails)
  show "ComplexAbs2_forward t = Inl (if rank t = 0 then IndexError else AssertionError)"
    using h by (simp add: ComplexAbs2_forward_def assert_complex_fails)
  show "ComplexExp_forward t = Inl (if rank t = 0 then IndexError else AssertionError)"
    using h by (simp add: ComplexExp_forward_def assert_complex_fails)
  show "ComplexMul_forward t b = Inl (if rank t = 0 then IndexError else AssertionError)"
    using h by (simp add: ComplexMul_forward_def assert_complex_fails)
  show "ComplexDiv_forward t b = Inl (if rank t = 0 then IndexError else AssertionError)"
    using h by (simp add: ComplexDiv_forward_def assert_complex_fails)
next
  show "isl (conj_t t) \<longleftrightarrow> rank t = 0 \<or> last (shape t) < 2"
    by (rule unary_fails_iff)
  show "isl (ComplexConj_forward t) \<longleftrightarrow> rank t = 0 \<or> last (shape t) < 2"
    unfolding ComplexConj_forward_def by (rule unary_fails_iff)
  show "isl (angle t) \<longleftrightarrow> rank t = 0 \<or> last (shape t) < 2"
    by (rule unary_fails_iff)
  show "isl (exp_t t) \<longleftrightarrow> rank t = 0 \<or> last (shape t) < 2"
    by (rule unary_fails_iff)
  show "isl (multiply_complex a b) \<longleftrightarrow>
        rank a = 0 \<or> last (shape a) < 2 \<or> rank b = 0 \<or> last (shape b) < 2
        \<or> broadcast_shapes (butlast (shape a)) (butlast (shape b)) = None"
    by (rule binary_fails_iff)
  show "isl (division_complex a b) \<longleftrightarrow>
        rank a = 0 \<or> last (shape a) < 2 \<or> rank b = 0 \<or> last (shape b) < 2
        \<or> broadcast_shapes (butlast (shape a)) (butlast (shape b)) = None"
    by (rule binary_fails_iff)
qed

theorem shape_check_enforced_witness:
  "(rank (Tensor [1] [5]) = 0 \<or> last (shape (Tensor [1] [5])) \<noteq> 2)
   \<and> abs_t (Tensor [1] [5]) = Inl AssertionError
   \<and> ComplexExp_forward (Tensor [1] [5]) = Inl AssertionError
   \<and> ComplexMul_forward (Tensor [1] [5]) (Tensor [2] [1, 0]) = Inl AssertionError
   \<and> isl (ComplexMul_forward (Tensor [2] [1, 0]) (Tensor [1] [5]))
   \<and> isl (conj_t (Tensor [1] [5]))
   \<and> isl (exp_t (Tensor [1] [5]))
   \<and> \<not> isl (conj_t (Tensor [4] [1, 2, 3, 4]))
   \<and> \<not> isl (ComplexConj_forward (Tensor [4] [1, 2, 3, 4]))
   \<and> \<not> isl (angle (Tensor [4] [1, 2, 3, 4]))
   \<and> \<not> isl (exp_t (Tensor [4] [1, 2, 3, 4]))
   \<and> \<not> isl (multiply_complex (Tensor [2, 1, 3] [1, 2, 3, 4, 5, 6]) (Tensor [2, 4] [1, 2, 3, 4, 5, 6, 7, 8]))
   \<and> \<not> isl (division_complex (Tensor [2, 1, 3] [1, 2, 3, 4, 5, 6]) (Tensor [2, 4] [1, 2, 3, 4, 5, 6, 7, 8]))
   \<and> isl (multiply_complex (Tensor [2, 3] [1, 2, 3, 4, 5, 6]) (Tensor [3, 3] [1, 2, 3, 4, 5, 6, 7, 8, 9]))
   \<and> isl (division_complex (Tensor [2, 3] [1, 2, 3, 4, 5, 6]) (Tensor [3, 3] [1, 2, 3, 4, 5, 6, 7, 8, 9]))"
proof -
  have h1: "rank (Tensor [1] [5]) = 0 \<or> last (shape (Tensor [1] [5])) \<noteq> 2"
    by simp
  note t = shape_check_enforced [where t = "Tensor [1] [5]" and a = "Tensor [2] [1, 0]"
      and b = "Tensor [2] [1, 0]"]
  note a = t[THEN conjunct1, rule_format, OF h1]
  note b = t[THEN conjunct2]
  note u = shape_check_enforced [where t = "Tensor [4] [1, 2, 3, 4]"
      and a = "Tensor [2, 1, 3] [1, 2, 3, 4, 5, 6]"
      and b = "Tensor [2, 4] [1, 2, 3, 4, 5, 6, 7, 8]", THEN conjunct2]
  note v = shape_check_enforced [where t = "Tensor [4] [1, 2, 3, 4]"
      and a = "Tensor [2, 3] [1, 2, 3, 4, 5, 6]"
      and b = "Tensor [3, 3] [1, 2, 3, 4, 5, 6, 7, 8, 9]", THEN conjunct2]
  have r: "rank (Tensor [1] [5]) \<noteq> 0" by (simp add: rank_def)
  have c1: "abs_t (Tensor [1] [5]) = Inl AssertionError"
    "ComplexExp_forward (Tensor [1] [5]) = Inl AssertionError"
    "ComplexMul_forward (Tensor [1] [5]) (Tensor [2] [1, 0]) = Inl AssertionError"
    "isl (ComplexMul_forward (Tensor [2] [1, 0]) (Tensor [1] [5]))"
    using a r by simp_all
  have c2: "isl (conj_t (Tensor [1] [5]))" "isl (exp_t (Tensor [1] [5]))"
    using b by (simp_all add: rank_def)
  have c3: "\<not> isl (conj_t (Tensor [4] [1, 2, 3, 4]))"
    "\<not> isl (ComplexConj_forward (Tensor [4] [1, 2, 3, 4]))"
    "\<not> isl (angle (Tensor [4] [1, 2, 3, 4]))"
    "\<not> isl (exp_t (Tensor [4] [1, 2, 3, 4]))"
    using u by (simp_all add: rank_def)
  have c4: "\<not> isl (multiply_complex (Tensor [2, 1, 3] [1, 2, 3, 4, 5, 6]) (Tensor [2, 4] [1, 2, 3, 4, 5, 6, 7, 8]))"
    "\<not> isl (division_complex (Tensor [2, 1, 3] [1, 2, 3, 4, 5, 6]) (Tensor [2, 4] [1, 2, 3, 4, 5, 6, 7, 8]))"
    using u by (simp_all add: rank_def broadcast_shapes_def)
  have c5: "isl (multiply_complex (Tensor [2, 3] [1, 2, 3, 4, 5, 6]) (Tensor [3, 3] [1, 2, 3, 4, 5, 6, 7, 8, 9]))"
    "isl (division_complex (Tensor [2, 3] [1, 2, 3, 4, 5, 6]) (Tensor [3, 3] [1, 2, 3, 4, 5, 6, 7, 8, 9]))"
    using v by (simp_all add: rank_def broadcast_shapes_def)
  show ?thesis
    by (intro conjI h1 c1 c2 c3 c4 c5)
qed

text \<open>
  Claim C3, as stated, fails: the primitives \<open>conj\<close>, \<open>exp\<close>, \<open>angle\<close>,
  \<open>multiply_complex\<close> and \<open>division_complex\<close> and the differentiable conjugate
  make no check and compute a result on a tensor whose trailing axis has size 3.
\<close>

theorem unchecked_operators_counterexample:
  "last (shape (Tensor [3] [0, 0, 5])) \<noteq> 2
   \<and> conj_t (Tensor [3] [0, 0, 5]) = Inr (Tensor [3] [0, 0, 5])
   \<and> exp_t (Tensor [3] [0, 0, 5]) = Inr (Tensor [3] [1, 0, 5])
   \<and> angle (Tensor [3] [0, 0, 5]) = Inr (Tensor [] [0])
   \<and> multiply_complex (Tensor [3] [0, 0, 5]) (Tensor [3] [0, 0, 5]) = Inr (Tensor [2] [0, 0])
   \<and> division_complex (Tensor [3] [0, 0, 5]) (Tensor [3] [0, 0, 5]) = Inr (Tensor [2] [0, 0])
   \<and> ComplexConj_forward (Tensor [3] [0, 0, 5]) = Inr (Tensor [3] [0, 0, 5])"
proof -
  have "conj_t (Tensor [3] [0, 0, 5]) = Inr (Tensor [3] [0, 0, 5])"
    by (simp add: eval_defs cong: and_then_weak_cong)
  moreover have "exp_t (Tensor [3] [0, 0, 5]) = Inr (Tensor [3] [1, 0, 5])"
    by (simp add: eval_defs cong: and_then_weak_cong)
  moreover have "angle (Tensor [3] [0, 0, 5]) = Inr (Tensor [] [0])"
    by (simp add: eval_defs atan2_def cong: and_then_weak_cong)
  moreover have "multiply_complex (Tensor [3] [0, 0, 5]) (Tensor [3] [0, 0, 5]) = Inr (Tensor [2] [0, 0])"
    by (simp add: eval_defs cong: and_then_weak_cong)
  moreover have "division_complex (Tensor [3] [0, 0, 5]) (Tensor [3] [0, 0, 5]) = Inr (Tensor [2] [0, 0])"
    by (simp add: eval_defs cong: and_then_weak_cong)
  ultimately show ?thesis
    by (simp add: ComplexConj_forward_def)
qed

subsection \<open>The gradient of the absolute value\<close>

lemma angle_eq:
  assumes "shape z = s @ [2]"
  shows "angle z = Inr (tabulate s (\<lambda>u. atan2 (elem z (u @ [1])) (elem z (u @ [0]))))"
  using assms by (simp add: angle_def select_last_eq broadcast_op_tabulate del: One_nat_def)

lemma ravel_snoc: "length v = length s \<Longrightarrow> ravel (s @ [n]) (v @ [k]) = ravel s v * n + k"
proof (induction s arbitrary: v)
  case Nil
  then show ?case by simp
next
  case (Cons m s)
  then obtain i w where v: "v = i # w" "length w = length s" by (cases v) auto
  then show ?case using Cons.IH[OF v(2)] by (simp add: algebra_simps)
qed

lemma r2c_eq:
  assumes "wf_tensor g"
  shows "r2c g = stack2 (rank g) g (tmap (\<lambda>x. 0) g)"
proof -
  let ?s = "shape g"
  let ?G = "Tensor (?s @ [1]) (data g)"
  have 1: "unsqueeze (rank g) g = Inr ?G"
    by (simp add: unsqueeze_def rank_def)
  have 2: "stack2 (rank g) g (tmap (\<lambda>x. 0) g)
      = Inr (tabulate (?s @ [2]) (\<lambda>u. elem (if last u = 0 then g else tmap (\<lambda>x. 0) g) (butlast u)))"
    unfolding rank_def by (rule stack2_last) simp_all
  have 3: "tabulate (?s @ [2]) (\<lambda>u. elem (if last u = 0 then ?G else tmap (\<lambda>x. 0) ?G) (butlast u @ [0]))
      = tabulate (?s @ [2]) (\<lambda>u. elem (if last u = 0 then g else tmap (\<lambda>x. 0) g) (butlast u))"
  proof (rule tabulate_cong)
    fix u assume "idx_ok (?s @ [2]) u"
    then obtain v c where u: "u = v @ [c]" "idx_ok ?s v" by (auto simp: idx_ok_snoc)
    have len: "length v = length ?s" using u(2) by (rule idx_ok_length)
    have lt: "ravel ?s v < length (data g)"
      using ravel_lt[OF u(2)] assms by (simp add: wf_tensor_def)
    have "elem ?G (v @ [0]) = elem g v"
      by (simp add: elem_def ravel_snoc[OF len])
    moreover have "elem (tmap (\<lambda>x. 0) ?G) (v @ [0]) = 0"
      using lt by (simp add: elem_def tmap_def ravel_snoc[OF len])
    moreover have "elem (tmap (\<lambda>x. 0) g) v = 0"
      using lt by (simp add: elem_def tmap_def)
    ultimately show "elem (if last u = 0 then ?G else tmap (\<lambda>x. 0) ?G) (butlast u @ [0])
        = elem (if last u = 0 then g else tmap (\<lambda>x. 0) g) (butlast u)"
      using u(1) by simp
  qed
  have "r2c g = Inr (tabulate (?s @ [2])
      (\<lambda>u. elem (if last u = 0 then ?G else tmap (\<lambda>x. 0) ?G) (butlast u @ [0])))"
    by (simp add: r2c_def 1 Let_def del: One_nat_def)
  then show ?thesis
    unfolding 2 3 .
qed

text \<open>
  Claim C4. For a complex tensor \<open>z\<close> and an output gradient \<open>g\<close> of the shape of
  \<open>abs z\<close>, the backward pass of the differentiable absolute value returns 0.5 times the
  complex product of the unit phasor \<open>(cos(angle(z)), sin(angle(z)))\<close> with \<open>r2c g\<close>, the
  gradient embedded as a complex tensor with zero imaginary channel. At every position
  the real channel is \<open>0.5 * cos t * g\<close> and the imaginary channel is \<open>0.5 * sin t * g\<close>,
  where \<open>t\<close> is the phase of \<open>z\<close> there. The factor 0.5 is there; the textbook rule
  \<open>z / |z|\<close> has none (the witness has \<open>z = 1\<close> and \<open>g = 1\<close> and the result 1/2).
\<close>

theorem abs_backward_rule:
  assumes "wf_tensor g" "shape z = shape g @ [2]"
  shows "ComplexAbs_backward z g =
           and_then (unit_phasor z) (\<lambda>p.
           and_then (r2c g) (\<lambda>gc.
           and_then (multiply_complex p gc) (\<lambda>m. Inr (tmap (\<lambda>x. 0.5 * x) m))))
       \<and> ComplexAbs_backward z g = Inr (tabulate (shape g @ [2])
     (\<lambda>u. 0.5 * ((if last u = 0
                   then cos (atan2 (elem z (butlast u @ [1])) (elem z (butlast u @ [0])))
                   else sin (atan2 (elem z (butlast u @ [1])) (elem z (butlast u @ [0]))))
                 * elem g (butlast u))))"
proof -
  let ?s = "shape g"
  let ?th = "\<lambda>v. atan2 (elem z (v @ [1])) (elem z (v @ [0]))"
  let ?gi = "tabulate (?s @ [2]) (\<lambda>u. elem (if last u = 0 then g else tmap (\<lambda>x. 0) g) (butlast u))"
  let ?ph = "tabulate (?s @ [2])
      (\<lambda>u. elem (if last u = 0 then tabulate ?s (\<lambda>v. cos (?th v)) else tabulate ?s (\<lambda>v. sin (?th v))) (butlast u))"
  have 1: "stack2 (rank g) g (tmap (\<lambda>x. 0) g) = Inr ?gi"
    unfolding rank_def by (rule stack2_last) simp_all
  have 2: "angle z = Inr (tabulate ?s ?th)"
    using assms(2) by (rule angle_eq)
  have 3: "stack2 (rank g) (tabulate ?s (\<lambda>v. cos (?th v))) (tabulate ?s (\<lambda>v. sin (?th v))) = Inr ?ph"
    unfolding rank_def by (rule stack2_last) simp_all
  have 4: "multiply_complex ?ph ?gi = Inr (tabulate (?s @ [2])
     (\<lambda>u. if last u = 0
          then elem ?ph (butlast u @ [0]) * elem ?gi (butlast u @ [0])
             - elem ?ph (butlast u @ [1]) * elem ?gi (butlast u @ [1])
          else elem ?ph (butlast u @ [0]) * elem ?gi (butlast u @ [1])
             + elem ?ph (butlast u @ [1]) * elem ?gi (butlast u @ [0])))"
    by (rule multiply_complex_same) simp_all
  have 5: "tabulate (?s @ [2])
     (\<lambda>u. 0.5 * (if last u = 0
          then elem ?ph (butlast u @ [0]) * elem ?gi (butlast u @ [0])
             - elem ?ph (butlast u @ [1]) * elem ?gi (butlast u @ [1])
          else elem ?ph (butlast u @ [0]) * elem ?gi (butlast u @ [1])
             + elem ?ph (butlast u @ [1]) * elem ?gi (butlast u @ [0])))
    = tabulate (?s @ [2])
     (\<lambda>u. 0.5 * ((if last u = 0
                   then cos (atan2 (elem z (butlast u @ [1])) (elem z (butlast u @ [0])))
                   else sin (atan2 (elem z (butlast u @ [1])) (elem z (butlast u @ [0]))))
                 * elem g (butlast u)))"
  proof (rule tabulate_cong)
    fix u assume "idx_ok (?s @ [2]) u"
    then obtain v k where u: "u = v @ [k]" "idx_ok ?s v" "k < 2" by (auto simp: idx_ok_snoc)
    have e: "elem ?ph (v @ [0]) = cos (?th v)" "elem ?ph (v @ [1]) = sin (?th v)"
      "elem ?gi (v @ [0]) = elem g v" "elem ?gi (v @ [1]) = 0"
      using u(2) assms(1) by (simp_all add: elem_tabulate elem_tmap)
    show "0.5 * (if last u = 0
          then elem ?ph (butlast u @ [0]) * elem ?gi (butlast u @ [0])
             - elem ?ph (butlast u @ [1]) * elem ?gi (butlast u @ [1])
          else elem ?ph (butlast u @ [0]) * elem ?gi (butlast u @ [1])
             + elem ?ph (butlast u @ [1]) * elem ?gi (butlast u @ [0]))
       = 0.5 * ((if last u = 0
                   then cos (atan2 (elem z (butlast u @ [1])) (elem z (butlast u @ [0])))
                   else sin (atan2 (elem z (butlast u @ [1])) (elem z (butlast u @ [0]))))
                 * elem g (butlast u))"
      unfolding u(1) butlast_snoc last_snoc e by simp
  qed
  have A: "ComplexAbs_backward z g = Inr (tabulate (shape g @ [2])
     (\<lambda>u. 0.5 * ((if last u = 0
                   then cos (atan2 (elem z (butlast u @ [1])) (elem z (butlast u @ [0])))
                   else sin (atan2 (elem z (butlast u @ [1])) (elem z (butlast u @ [0]))))
                 * elem g (butlast u))))"
    unfolding ComplexAbs_backward_def 1 2 and_then_simps tmap_tabulate 3 4 5 ..
  have r: "rank (tabulate ?s ?th) = rank g" by (simp add: rank_def)
  have ph: "unit_phasor z = Inr ?ph"
    unfolding unit_phasor_def 2 and_then_simps r tmap_tabulate 3 ..
  have gc: "r2c g = Inr ?gi"
    unfolding r2c_eq[OF assms(1)] 1 ..
  have B: "and_then (unit_phasor z) (\<lambda>p.
           and_then (r2c g) (\<lambda>gc.
           and_then (multiply_complex p gc) (\<lambda>m. Inr (tmap (\<lambda>x. 0.5 * x) m))))
      = Inr (tabulate (shape g @ [2])
     (\<lambda>u. 0.5 * ((if last u = 0
                   then cos (atan2 (elem z (butlast u @ [1])) (elem z (butlast u @ [0])))
                   else sin (atan2 (elem z (butlast u @ [1])) (elem z (butlast u @ [0]))))
                 * elem g (butlast u))))"
    unfolding ph gc and_then_simps 4 tmap_tabulate 5 ..
  show ?thesis
    unfolding B by (intro conjI A)
qed

theorem abs_backward_rule_witness:
  "wf_tensor (Tensor [1] [1]) \<and> shape (Tensor [1, 2] [1, 0]) = shape (Tensor [1] [1]) @ [2]
   \<and> ComplexAbs_backward (Tensor [1, 2] [1, 0]) (Tensor [1] [1]) = Inr (Tensor [1, 2] [1 / 2, 0])"
  using abs_backward_rule [of "Tensor [1] [1]" "Tensor [1, 2] [1, 0]", THEN conjunct2]
  by (simp add: wf_tensor_def elem_def tabulate_def atan2_def upt_conv_Cons)

subsection \<open>The broadcast reduction of the binary backward passes\<close>

lemma stack2_rank: "stack2 d a b = Inr r \<Longrightarrow> rank r \<noteq> 0"
  by (auto simp: stack2_def rank_def split: if_splits)

lemma multiply_complex_rank: "multiply_complex a b = Inr r \<Longrightarrow> rank r \<noteq> 0"
  unfolding multiply_complex_def and_then_eq_Inr by (blast dest: stack2_rank)

lemma sum_axis_0: "rank t \<noteq> 0 \<Longrightarrow> sum_axis 0 t = Inr (summed_over_axis0 t)"
  by (cases "shape t") (simp_all add: sum_axis_def summed_over_axis0_def rank_def)

lemma ComplexMul_products_rank:
  "ComplexMul_products saved g = Inr (p1, p2) \<Longrightarrow> rank p1 \<noteq> 0 \<and> rank p2 \<noteq> 0"
  by (cases saved) (auto simp: ComplexMul_products_def and_then_eq_Inr dest: multiply_complex_rank)

lemma ComplexDiv_products_rank:
  "ComplexDiv_products saved g = Inr (p1, p2) \<Longrightarrow> rank p1 \<noteq> 0 \<and> rank p2 \<noteq> 0"
  by (cases saved)
    (auto simp: ComplexDiv_products_def and_then_eq_Inr Let_def dest: multiply_complex_rank)

lemma reduce_grads_eq:
  assumes "rank p1 \<noteq> 0" "rank p2 \<noteq> 0"
  shows "reduce_grads input1 input2 p1 p2 =
     Inr (if rank input1 > rank input2 then (p1, summed_over_axis0 p2)
          else if rank input1 < rank input2 then (summed_over_axis0 p1, p2)
          else (p1, p2))"
  using assms by (simp add: reduce_grads_def sum_axis_0)

text \<open>
  Claim C5. Let the elementwise backward products of complex multiply be \<open>(m1, m2)\<close>
  and those of complex divide be \<open>(d1, d2)\<close>. When one operand has exactly one more
  leading axis than the other, the gradient of the operand of lower rank is its product
  summed over axis 0 and the other gradient is its product as it is; when the operands
  have equal rank both gradients are the products, with no summation.
\<close>

theorem broadcast_reduction_rule:
  assumes "ComplexMul_products (input1, input2) grad_output = Inr (m1, m2)"
    and "ComplexDiv_products (input1, input2) grad_output = Inr (d1, d2)"
  shows "(rank input1 = Suc (rank input2) \<longrightarrow>
            ComplexMul_backward (input1, input2) grad_output = Inr (m1, summed_over_axis0 m2)
          \<and> ComplexDiv_backward (input1, input2) grad_output = Inr (d1, summed_over_axis0 d2))
       \<and> (rank input2 = Suc (rank input1) \<longrightarrow>
            ComplexMul_backward (input1, input2) grad_output = Inr (summed_over_axis0 m1, m2)
          \<and> ComplexDiv_backward (input1, input2) grad_output = Inr (summed_over_axis0 d1, d2))
       \<and> (rank input1 = rank input2 \<longrightarrow>
            ComplexMul_backward (input1, input2) grad_output = Inr (m1, m2)
          \<and> ComplexDiv_backward (input1, input2) grad_output = Inr (d1, d2))"
  using ComplexMul_products_rank[OF assms(1)] ComplexDiv_products_rank[OF assms(2)] assms
  by (simp add: ComplexMul_backward_def ComplexDiv_backward_def reduce_grads_eq)

lemma mul_products_example:
  "ComplexMul_products (Tensor [2, 1, 2] [1, 2, 3, 4], Tensor [1, 2] [0, 1]) (Tensor [2, 1, 2] [1, 0, 0, 1])
     = Inr (Tensor [2, 1, 2] [0, - 1, 1, 0], Tensor [2, 1, 2] [1, - 2, 4, 3])"
  by (simp add: ComplexMul_products_def eval_defs cong: and_then_weak_cong)

lemma div_products_example:
  "ComplexDiv_products (Tensor [2, 1, 2] [1, 2, 3, 4], Tensor [1, 2] [0, 1]) (Tensor [2, 1, 2] [1, 0, 0, 1])
     = Inr (Tensor [2, 1, 2] [0, 1, - 1, 0], Tensor [2, 1, 2] [1, - 2, 4, 3])"
  by (simp add: ComplexDiv_products_def eval_defs cong: and_then_weak_cong)

theorem broadcast_reduction_rule_witness:
  "ComplexMul_products (Tensor [2, 1, 2] [1, 2, 3, 4], Tensor [1, 2] [0, 1]) (Tensor [2, 1, 2] [1, 0, 0, 1])
     = Inr (Tensor [2, 1, 2] [0, - 1, 1, 0], Tensor [2, 1, 2] [1, - 2, 4, 3])
   \<and> ComplexDiv_products (Tensor [2, 1, 2] [1, 2, 3, 4], Tensor [1, 2] [0, 1]) (Tensor [2, 1, 2] [1, 0, 0, 1])
     = Inr (Tensor [2, 1, 2] [0, 1, - 1, 0], Tensor [2, 1, 2] [1, - 2, 4, 3])
   \<and> rank (Tensor [2, 1, 2] [1, 2, 3, 4]) = Suc (rank (Tensor [1, 2] [0, 1]))
   \<and> ComplexMul_backward (Tensor [2, 1, 2] [1, 2, 3, 4], Tensor [1, 2] [0, 1]) (Tensor [2, 1, 2] [1, 0, 0, 1])
     = Inr (Tensor [2, 1, 2] [0, - 1, 1, 0], Tensor [1, 2] [5, 1])
   \<and> ComplexDiv_backward (Tensor [2, 1, 2] [1, 2, 3, 4], Tensor [1, 2] [0, 1]) (Tensor [2, 1, 2] [1, 0, 0, 1])
     = Inr (Tensor [2, 1, 2] [0, 1, - 1, 0], Tensor [1, 2] [5, 1])"
proof -
  have s: "summed_over_axis0 (Tensor [2, 1, 2] [1, - 2, 4, 3]) = Tensor [1, 2] [5, 1]"
    by (simp add: summed_over_axis0_def elem_def tabulate_def upt_conv_Cons)
  have rk: "rank (Tensor [2, 1, 2] [1, 2, 3, 4]) = Suc (rank (Tensor [1, 2] [0, 1]))"
    by (simp add: rank_def)
  show ?thesis
    using broadcast_reduction_rule [OF mul_products_example div_products_example] rk
      mul_products_example div_products_example
    unfolding s by blast
qed


subsection \<open>Shifts\<close>

lemma shape_roll [simp]: "shape (roll sh ax t) = shape t"
  by (simp add: roll_def)

lemma rank_roll [simp]: "rank (roll sh ax t) = rank t"
  by (simp add: rank_def)

lemma wf_roll [simp]: "wf_tensor (roll sh ax t)"
  by (simp add: roll_def)

lemma roll_idx_ok:
  assumes "idx_ok s u" "ax < length s"
  shows "idx_ok s (u[ax := nat ((int (u ! ax) - sh) mod int (s ! ax))])"
proof -
  have "u ! ax < s ! ax" using assms by (rule idx_ok_nth)
  then have "0 < int (s ! ax)" by simp
  then have "0 \<le> (int (u ! ax) - sh) mod int (s ! ax)" "(int (u ! ax) - sh) mod int (s ! ax) < int (s ! ax)"
    by simp_all
  then have "nat ((int (u ! ax) - sh) mod int (s ! ax)) < s ! ax" by linarith
  with assms show ?thesis by (simp add: idx_ok_update)
qed

lemma elem_roll:
  "idx_ok (shape t) u \<Longrightarrow>
     elem (roll sh ax t) u = elem t (u[ax := nat ((int (u ! ax) - sh) mod int (shape t ! ax))])"
  by (simp add: roll_def elem_tabulate)

lemma roll_index_commute:
  assumes "idx_ok s u" "a1 < length s" "a2 < length s"
  shows "(u[a1 := nat ((int (u ! a1) - s1) mod int (s ! a1))])
           [a2 := nat ((int ((u[a1 := nat ((int (u ! a1) - s1) mod int (s ! a1))]) ! a2) - s2) mod int (s ! a2))]
       = (u[a2 := nat ((int (u ! a2) - s2) mod int (s ! a2))])
           [a1 := nat ((int ((u[a2 := nat ((int (u ! a2) - s2) mod int (s ! a2))]) ! a1) - s1) mod int (s ! a1))]"
proof (cases "a1 = a2")
  case True
  have len: "a1 < length u" using assms by (simp add: idx_ok_length)
  have pos: "0 < int (s ! a1)" using idx_ok_nth[OF assms(1,2)] by simp
  have "(int (u ! a1) - s1) mod int (s ! a1) - s2 = ((int (u ! a1) - s1) mod int (s ! a1) - s2)" by simp
  have e1: "((int (u ! a1) - s1) mod int (s ! a1) - s2) mod int (s ! a1)
      = (int (u ! a1) - s1 - s2) mod int (s ! a1)"
    by (simp add: mod_diff_left_eq)
  have e2: "((int (u ! a1) - s2) mod int (s ! a1) - s1) mod int (s ! a1)
      = (int (u ! a1) - s1 - s2) mod int (s ! a1)"
    by (simp add: mod_diff_left_eq algebra_simps)
  show ?thesis using True len pos e1 e2 by simp
next
  case False
  then show ?thesis by (simp add: list_update_swap)
qed

lemma roll_roll_commute:
  assumes "a1 < rank t" "a2 < rank t"
  shows "roll s1 a1 (roll s2 a2 t) = roll s2 a2 (roll s1 a1 t)"
proof -
  let ?s = "shape t"
  let ?f = "\<lambda>sh ax u. u[ax := nat ((int (u ! ax) - sh) mod int (?s ! ax))]"
  have l: "roll s1 a1 (roll s2 a2 t) = tabulate ?s (\<lambda>u. elem t (?f s2 a2 (?f s1 a1 u)))"
    unfolding roll_def[of s1 a1] shape_roll
    by (rule tabulate_cong) (use assms in \<open>simp add: elem_roll roll_idx_ok rank_def\<close>)
  have r: "roll s2 a2 (roll s1 a1 t) = tabulate ?s (\<lambda>u. elem t (?f s1 a1 (?f s2 a2 u)))"
    unfolding roll_def[of s2 a2] shape_roll
    by (rule tabulate_cong) (use assms in \<open>simp add: elem_roll roll_idx_ok rank_def\<close>)
  have "tabulate ?s (\<lambda>u. elem t (?f s2 a2 (?f s1 a1 u))) = tabulate ?s (\<lambda>u. elem t (?f s1 a1 (?f s2 a2 u)))"
  proof (rule tabulate_cong)
    fix u assume "idx_ok ?s u"
    then have "?f s2 a2 (?f s1 a1 u) = ?f s1 a1 (?f s2 a2 u)"
      using assms unfolding rank_def by (rule roll_index_commute)
    then show "elem t (?f s2 a2 (?f s1 a1 u)) = elem t (?f s1 a1 (?f s2 a2 u))" by simp
  qed
  with l r show ?thesis by simp
qed

lemma roll_inverse:
  assumes "wf_tensor t" "ax < rank t"
  shows "roll (- sh) ax (roll sh ax t) = t"
proof -
  let ?s = "shape t"
  have "roll (- sh) ax (roll sh ax t) = tabulate ?s (elem t)"
    unfolding roll_def[of "- sh" ax] shape_roll
  proof (rule tabulate_cong)
    fix u assume u: "idx_ok ?s u"
    let ?v = "u[ax := nat ((int (u ! ax) - - sh) mod int (?s ! ax))]"
    have len: "ax < length u" using assms(2) u by (simp add: idx_ok_length rank_def)
    have lt: "u ! ax < ?s ! ax" using u assms(2) unfolding rank_def by (rule idx_ok_nth)
    have v: "idx_ok ?s ?v" using u assms(2) unfolding rank_def by (rule roll_idx_ok)
    have "((int (u ! ax) + sh) mod int (?s ! ax) - sh) mod int (?s ! ax) = int (u ! ax) mod int (?s ! ax)"
      by (simp add: mod_diff_left_eq)
    also have "\<dots> = int (u ! ax)" using lt by simp
    finally have "?v[ax := nat ((int (?v ! ax) - sh) mod int (?s ! ax))] = u"
      using len lt by simp
    then show "elem (roll sh ax t) ?v = elem t u"
      using v by (simp add: elem_roll)
  qed
  then show ?thesis using assms(1) by (simp add: tabulate_elem)
qed

lemma roll_inverse': "wf_tensor t \<Longrightarrow> ax < rank t \<Longrightarrow> roll sh ax (roll (- sh) ax t) = t"
  using roll_inverse[of t ax "- sh"] by simp

lemma norm_axis_Inr: "norm_axis r a = Inr b \<Longrightarrow> b < r"
  by (auto simp: norm_axis_def split: if_splits)

lemma norm_axis_valid: "- int r \<le> a \<Longrightarrow> a < int r \<Longrightarrow> \<exists>b<r. norm_axis r a = Inr b"
  by (auto simp: norm_axis_def)

lemma fftshift_loop_roll:
  "ax < rank x \<Longrightarrow>
     fftshift_loop axes (roll sh ax x) = and_then (fftshift_loop axes x) (\<lambda>r. Inr (roll sh ax r))"
proof (induction axes arbitrary: x)
  case Nil
  then show ?case by simp
next
  case (Cons a axes)
  show ?case
  proof (cases "norm_axis (rank x) a")
    case (Inl e)
    then show ?thesis by simp
  next
    case (Inr b)
    then have b: "b < rank x" by (rule norm_axis_Inr)
    have "roll (int (shape x ! b div 2)) b (roll sh ax x) = roll sh ax (roll (int (shape x ! b div 2)) b x)"
      using b Cons.prems by (rule roll_roll_commute)
    then show ?thesis using Inr Cons.IH[of "roll (int (shape x ! b div 2)) b x"] Cons.prems by simp
  qed
qed

lemma ifftshift_loop_roll:
  "ax < rank x \<Longrightarrow>
     ifftshift_loop axes (roll sh ax x) = and_then (ifftshift_loop axes x) (\<lambda>r. Inr (roll sh ax r))"
proof (induction axes arbitrary: x)
  case Nil
  then show ?case by simp
next
  case (Cons a axes)
  show ?case
  proof (cases "norm_axis (rank x) a")
    case (Inl e)
    then show ?thesis by simp
  next
    case (Inr b)
    then have b: "b < rank x" by (rule norm_axis_Inr)
    have "roll (- 1 * int (shape x ! b div 2)) b (roll sh ax x)
        = roll sh ax (roll (- 1 * int (shape x ! b div 2)) b x)"
      using b Cons.prems by (rule roll_roll_commute)
    then show ?thesis
      using Inr Cons.IH[of "roll (- 1 * int (shape x ! b div 2)) b x"] Cons.prems by simp
  qed
qed

lemma fftshift_loop_shape:
  "fftshift_loop axes t = Inr r \<Longrightarrow> wf_tensor t \<Longrightarrow> shape r = shape t \<and> wf_tensor r"
proof (induction axes arbitrary: t)
  case Nil
  then show ?case by simp
next
  case (Cons a axes)
  then show ?case by (fastforce simp: and_then_eq_Inr)
qed

lemma ifftshift_loop_shape:
  "ifftshift_loop axes t = Inr r \<Longrightarrow> wf_tensor t \<Longrightarrow> shape r = shape t \<and> wf_tensor r"
proof (induction axes arbitrary: t)
  case Nil
  then show ?case by simp
next
  case (Cons a axes)
  then show ?case by (fastforce simp: and_then_eq_Inr)
qed

lemma shift_unshift_loop:
  assumes "wf_tensor t" "list_all (\<lambda>a. - int (rank t) \<le> a \<and> a < int (rank t)) axes"
  shows "and_then (fftshift_loop axes t) (ifftshift_loop axes) = Inr t"
  using assms
proof (induction axes arbitrary: t)
  case Nil
  then show ?case by simp
next
  case (Cons a axes)
  from Cons.prems(2) obtain b where b: "b < rank t" "norm_axis (rank t) a = Inr b"
    using norm_axis_valid[of "rank t" a] by auto
  let ?h = "int (shape t ! b div 2)"
  have "and_then (fftshift_loop axes t) (ifftshift_loop axes) = Inr t"
    using Cons.IH[of t] Cons.prems by simp
  then obtain r where r: "fftshift_loop axes t = Inr r" "ifftshift_loop axes r = Inr t"
    by (auto simp: and_then_eq_Inr)
  have sh: "shape r = shape t" "wf_tensor r"
    using fftshift_loop_shape[OF r(1) Cons.prems(1)] by simp_all
  then have rk: "rank r = rank t" by (simp add: rank_def)
  have 1: "fftshift_loop (a # axes) t = Inr (roll ?h b r)"
    using b r(1) by (simp add: fftshift_loop_roll)
  have "roll (- 1 * ?h) b (roll ?h b r) = r"
    using roll_inverse[of r b ?h] sh(2) b(1) rk by simp
  then have 2: "ifftshift_loop (a # axes) (roll ?h b r) = Inr t"
    using b r(2) sh(1) rk by simp
  show ?case unfolding 1 using 2 by simp
qed

lemma unshift_shift_loop:
  assumes "wf_tensor t" "list_all (\<lambda>a. - int (rank t) \<le> a \<and> a < int (rank t)) axes"
  shows "and_then (ifftshift_loop axes t) (fftshift_loop axes) = Inr t"
  using assms
proof (induction axes arbitrary: t)
  case Nil
  then show ?case by simp
next
  case (Cons a axes)
  from Cons.prems(2) obtain b where b: "b < rank t" "norm_axis (rank t) a = Inr b"
    using norm_axis_valid[of "rank t" a] by auto
  let ?h = "int (shape t ! b div 2)"
  have "and_then (ifftshift_loop axes t) (fftshift_loop axes) = Inr t"
    using Cons.IH[of t] Cons.prems by simp
  then obtain r where r: "ifftshift_loop axes t = Inr r" "fftshift_loop axes r = Inr t"
    by (auto simp: and_then_eq_Inr)
  have sh: "shape r = shape t" "wf_tensor r"
    using ifftshift_loop_shape[OF r(1) Cons.prems(1)] by simp_all
  then have rk: "rank r = rank t" by (simp add: rank_def)
  have 1: "ifftshift_loop (a # axes) t = Inr (roll (- 1 * ?h) b r)"
    using b r(1) by (simp add: ifftshift_loop_roll)
  have "roll ?h b (roll (- 1 * ?h) b r) = r"
    using roll_inverse'[of r b ?h] sh(2) b(1) rk by simp
  then have 2: "fftshift_loop (a # axes) (roll (- 1 * ?h) b r) = Inr t"
    using b r(2) sh(1) rk by simp
  show ?case unfolding 1 using 2 by simp
qed

text \<open>
  Claim C8. For every tensor and every list of valid axes, \<open>fftshift\<close> followed by
  \<open>ifftshift\<close> over the same axes returns the tensor exactly, and so does
  \<open>ifftshift\<close> followed by \<open>fftshift\<close>: for axes of every length, the even ones
  included.
\<close>

theorem fftshift_roundtrip:
  assumes "wf_tensor t" "list_all (\<lambda>a. - int (rank t) \<le> a \<and> a < int (rank t)) axes"
  shows "and_then (fftshift t (Some axes)) (\<lambda>r. ifftshift r (Some axes)) = Inr t
       \<and> and_then (ifftshift t (Some axes)) (\<lambda>r. fftshift r (Some axes)) = Inr t"
  using shift_unshift_loop[OF assms] unshift_shift_loop[OF assms]
  by (simp add: fftshift_def ifftshift_def)

theorem fftshift_roundtrip_witness:
  "wf_tensor (Tensor [3, 2] [1, 2, 3, 4, 5, 6])
   \<and> list_all (\<lambda>a. - int (rank (Tensor [3, 2] [1, 2, 3, 4, 5, 6])) \<le> a
                  \<and> a < int (rank (Tensor [3, 2] [1, 2, 3, 4, 5, 6]))) [0, - 1]
   \<and> fftshift (Tensor [3, 2] [1, 2, 3, 4, 5, 6]) (Some [0, - 1]) = Inr (Tensor [3, 2] [6, 5, 2, 1, 4, 3])
   \<and> ifftshift (Tensor [3, 2] [1, 2, 3, 4, 5, 6]) (Some [0, - 1]) = Inr (Tensor [3, 2] [4, 3, 6, 5, 2, 1])
   \<and> and_then (fftshift (Tensor [3, 2] [1, 2, 3, 4, 5, 6]) (Some [0, - 1]))
        (\<lambda>r. ifftshift r (Some [0, - 1])) = Inr (Tensor [3, 2] [1, 2, 3, 4, 5, 6])
   \<and> and_then (ifftshift (Tensor [3, 2] [1, 2, 3, 4, 5, 6]) (Some [0, - 1]))
        (\<lambda>r. fftshift r (Some [0, - 1])) = Inr (Tensor [3, 2] [1, 2, 3, 4, 5, 6])"
proof -
  have 1: "fftshift (Tensor [3, 2] [1, 2, 3, 4, 5, 6]) (Some [0, - 1]) = Inr (Tensor [3, 2] [6, 5, 2, 1, 4, 3])"
    by (simp add: fftshift_def norm_axis_def eval_defs cong: and_then_weak_cong)
  have 2: "ifftshift (Tensor [3, 2] [1, 2, 3, 4, 5, 6]) (Some [0, - 1]) = Inr (Tensor [3, 2] [4, 3, 6, 5, 2, 1])"
    by (simp add: ifftshift_def norm_axis_def eval_defs cong: and_then_weak_cong)
  have 3: "wf_tensor (Tensor [3, 2] [1, 2, 3, 4, 5, 6])"
    by (simp add: wf_tensor_def)
  have 4: "list_all (\<lambda>a. - int (rank (Tensor [3, 2] [1, 2, 3, 4, 5, 6])) \<le> a
                  \<and> a < int (rank (Tensor [3, 2] [1, 2, 3, 4, 5, 6]))) [0, - 1]"
    by (simp add: rank_def)
  show ?thesis
    using fftshift_roundtrip [OF 3 4] 1 2 3 4 by simp
qed


section \<open>Properties of propagation\<close>

lemmas prop_defs = complex_mul_def complex_exp_def complex_conj_def complex_conv_def
  ComplexMul_forward_def ComplexExp_forward_def ComplexConj_forward_def ComplexConv_forward_def
  SingleSlicePropagation_forward_def layer_def


text \<open>
  Claim C6. Single-slice propagation by distance 0 returns the field it was given, whatever
  the field and the kernel are: also a field that no transform accepts and a kernel from
  which no propagation kernel can be built, so none of these steps is taken.
\<close>

theorem single_slice_zero_distance:
  "SingleSlicePropagation_forward self field_in 0 = Inr field_in"
  by (simp add: SingleSlicePropagation_forward_def)

theorem single_slice_zero_distance_witness:
  "SingleSlicePropagation_forward \<lparr> kernel_phase = Tensor [] [7] \<rparr> (Tensor [] [1]) 0 = Inr (Tensor [] [1])
   \<and> fft_t 2 (Tensor [] [1]) = Inl RuntimeError
   \<and> complex_exp (Tensor [] [7]) = Inl IndexError"
  using single_slice_zero_distance [of "\<lparr> kernel_phase = Tensor [] [7] \<rparr>" "Tensor [] [1]"]
  by (simp add: fft_t_def rank_def complex_exp_def ComplexExp_forward_def assert_complex_def)

subsection \<open>Multislice propagation\<close>

text \<open>
  For a volume of at least two layers the code does what the specification says: its
  first step and its loop are the steps of \<open>multislice_spec\<close>.
\<close>

lemma multislice_loop_matches_spec:
  assumes "distance_to_center self
         = (real (snd (snd (ms_shape self))) / 2 - 1 / 2) * snd (snd (voxel_size self))"
  shows "MultislicePropagation_loop self obj idxs field = multislice_spec_loop self obj idxs field"
proof (induction idxs arbitrary: field)
  case Nil
  show ?case by simp
next
  case (Cons i idxs)
  have "(if int i < int (snd (snd (ms_shape self))) - 1
         then SingleSlicePropagation_forward (propagate self) f (snd (snd (voxel_size self)))
         else SingleSlicePropagation_forward (propagate self) f (- 1 * distance_to_center self))
      = SingleSlicePropagation_forward (propagate self) f (spec_distance self i)" for f
    using assms by (auto simp: spec_distance_def)
  moreover have "MultislicePropagation_loop self obj idxs = multislice_spec_loop self obj idxs"
    by (intro ext) (rule Cons.IH)
  ultimately show ?case by simp
qed

lemma multislice_forward_matches_spec:
  assumes "2 \<le> snd (snd shp)"
  shows "MultislicePropagation_forward (MultislicePropagation_init shp vs k) obj field_in
       = multislice_spec (MultislicePropagation_init shp vs k) obj field_in"
proof -
  let ?self = "MultislicePropagation_init shp vs k"
  have d: "distance_to_center ?self
         = (real (snd (snd (ms_shape ?self))) / 2 - 1 / 2) * snd (snd (voxel_size ?self))"
    by (simp add: MultislicePropagation_init_def)
  have L: "snd (snd (ms_shape ?self)) = snd (snd shp)"
    by (simp add: MultislicePropagation_init_def)
  have s0: "spec_distance ?self 0 = snd (snd (voxel_size ?self))"
    using assms by (simp add: spec_distance_def L)
  have u: "[0..<snd (snd shp)] = 0 # [1..<snd (snd shp)]"
    using assms by (simp add: upt_conv_Cons)
  have loops: "MultislicePropagation_loop ?self obj idxs = multislice_spec_loop ?self obj idxs" for idxs
    by (intro ext) (rule multislice_loop_matches_spec[OF d])
  show ?thesis
  proof (cases field_in)
    case None
    then show ?thesis
      by (simp add: MultislicePropagation_forward_def multislice_spec_def s0
          loops)
  next
    case (Some f)
    then show ?thesis
      by (simp add: MultislicePropagation_forward_def multislice_spec_def s0 L u
          loops and_then_assoc del: One_nat_def)
  qed
qed

text \<open>
  Claim C2, at a volume of one layer. The claim has no forward propagation after the last
  layer, only the propagation by \<open>-(L/2 - 1/2) * s\<close>, which is 0 for \<open>L = 1\<close>: the field
  times the layer is returned. The code propagates by the spacing after layer 0 whether
  or not it is the last, and its loop, which holds the test for the last layer, does not
  run: the field comes back propagated by \<open>s\<close>. With a 1 by 1 field \<open>1\<close>, a transparent
  layer, spacing 1 and kernel phase \<open>i * pi / 2\<close> the code returns \<open>i\<close> and the
  specification \<open>1\<close>.
\<close>

theorem multislice_single_layer:
  "MultislicePropagation_forward
     (MultislicePropagation_init (1, 1, 1) (1, 1, 1) (Tensor [1, 1, 2] [0, pi / 2]))
     (Tensor [1, 1, 1, 2] [1, 0]) (Some (Tensor [1, 1, 2] [1, 0])) = Inr (Tensor [1, 1, 2] [0, 1])
   \<and> multislice_spec
     (MultislicePropagation_init (1, 1, 1) (1, 1, 1) (Tensor [1, 1, 2] [0, pi / 2]))
     (Tensor [1, 1, 1, 2] [1, 0]) (Some (Tensor [1, 1, 2] [1, 0])) = Inr (Tensor [1, 1, 2] [1, 0])"
proof -
  have 1: "MultislicePropagation_forward
     (MultislicePropagation_init (1, 1, 1) (1, 1, 1) (Tensor [1, 1, 2] [0, pi / 2]))
     (Tensor [1, 1, 1, 2] [1, 0]) (Some (Tensor [1, 1, 2] [1, 0])) = Inr (Tensor [1, 1, 2] [0, 1])"
    by (simp add: MultislicePropagation_forward_def MultislicePropagation_init_def prop_defs eval_defs
        cong: and_then_weak_cong)
  have 2: "multislice_spec
     (MultislicePropagation_init (1, 1, 1) (1, 1, 1) (Tensor [1, 1, 2] [0, pi / 2]))
     (Tensor [1, 1, 1, 2] [1, 0]) (Some (Tensor [1, 1, 2] [1, 0])) = Inr (Tensor [1, 1, 2] [1, 0])"
    by (simp add: multislice_spec_def spec_distance_def MultislicePropagation_init_def prop_defs eval_defs
        cong: and_then_weak_cong)
  show ?thesis using 1 2 by simp
qed

subsection \<open>The defocus stack operator\<close>

lemma fft_t_2_rank3: "shape t = [H, W, 2] \<Longrightarrow> fft_t 2 t = Inr (fft2 t)"
  by (simp add: fft_t_def fft2_def rank_def upt_conv_Cons)

lemma ifft_t_2_rank3: "shape t = [H, W, 2] \<Longrightarrow> ifft_t 2 t = Inr (ifft2 t)"
  by (simp add: ifft_t_def ifft2_def rank_def upt_conv_Cons)

lemma shape_fft2 [simp]: "shape (fft2 t) = shape t"
  by (simp add: fft2_def)

lemma wf_fft2 [simp]: "wf_tensor (fft2 t)"
  by (simp add: fft2_def)

lemma shape_ifft2 [simp]: "shape (ifft2 t) = shape t"
  by (simp add: ifft2_def)

lemma wf_ifft2 [simp]: "wf_tensor (ifft2 t)"
  by (simp add: ifft2_def)

lemma ifft_t_2_batch:
  assumes "\<And>i. i < n \<Longrightarrow> shape (G i) = [H, W, 2]" "0 < n"
  shows "ifft_t 2 (batch n [H, W, 2] G) = Inr (batch n [H, W, 2] (\<lambda>i. ifft2 (G i)))"
proof -
  have s: "[H, W, 2] = [H, W] @ [2]" by simp
  have 1: "dft_axis True 2 (batch n [H, W, 2] G) = batch n [H, W, 2] (\<lambda>i. dft_axis True 1 (G i))"
    unfolding s using dft_axis_batch[of n G "[H, W]" 1 True] assms(1) by (simp add: numeral_2_eq_2)
  have 2: "dft_axis True 1 (batch n [H, W, 2] (\<lambda>i. dft_axis True 1 (G i)))
      = batch n [H, W, 2] (\<lambda>i. dft_axis True 0 (dft_axis True 1 (G i)))"
    unfolding s using dft_axis_batch[of n "\<lambda>i. dft_axis True 1 (G i)" "[H, W]" 0 True] assms(1) by simp
  have 0: "ifft_t 2 (batch n [H, W, 2] G)
      = Inr (dft_axis True 1 (dft_axis True 2 (batch n [H, W, 2] G)))"
    using assms(2) by (simp add: ifft_t_def rank_def upt_conv_Cons numeral_2_eq_2)
  show ?thesis
    unfolding 0 1 2 ifft2_def ..
qed

lemma idx_ok4:
  "idx_ok [a, b, c, d] u \<longleftrightarrow> (\<exists>i j k l. u = [i, j, k, l] \<and> i < a \<and> j < b \<and> k < c \<and> l < d)"
  by (auto simp: idx_ok_Cons)

lemma idx_ok3:
  "idx_ok [a, b, c] u \<longleftrightarrow> (\<exists>i j k. u = [i, j, k] \<and> i < a \<and> j < b \<and> k < c)"
  by (auto simp: idx_ok_Cons)

lemma stack_offsets:
  assumes "shape F = [H, W, 2]"
  shows "and_then (unsqueeze 2 F) (\<lambda>a. and_then (repeat [1, 1, n, 1] a) (permute [2, 0, 1, 3]))
       = Inr (batch n [H, W, 2] (\<lambda>_. F))"
proof -
  let ?a = "Tensor [H, W, 1, 2] (data F)"
  let ?r = "tabulate [H, W, n, 2] (\<lambda>u. elem ?a (map2 (\<lambda>i n. i mod n) u [H, W, 1, 2]))"
  have 1: "unsqueeze 2 F = Inr ?a"
    using assms by (simp add: unsqueeze_def rank_def)
  have 2: "repeat [1, 1, n, 1] ?a = Inr ?r"
    by (simp add: repeat_def rank_def Let_def)
  have 3: "permute [2, 0, 1, 3] ?r = Inr (tabulate [n, H, W, 2]
       (\<lambda>u. elem ?r [u ! 1, u ! 2, u ! 0, u ! 3]))"
    by (simp add: permute_def rank_def upt_conv_Cons numeral_2_eq_2 numeral_3_eq_3)
  have 4: "tabulate [n, H, W, 2] (\<lambda>u. elem ?r [u ! 1, u ! 2, u ! 0, u ! 3])
      = batch n [H, W, 2] (\<lambda>_. F)"
    unfolding batch_def
  proof (rule tabulate_cong)
    fix u assume "idx_ok [n, H, W, 2] u"
    then obtain i h w c where u: "u = [i, h, w, c]" "i < n" "h < H" "w < W" "c < 2"
      by (auto simp: idx_ok4)
    have m: "[u ! 1, u ! 2, u ! 0, u ! 3] = [h, w, i, c]"
      using u by simp
    have "elem ?r [h, w, i, c] = elem ?a [h, w, 0, c]"
      using u by (simp add: elem_tabulate)
    also have "\<dots> = elem F [h, w, c]"
      using assms by (simp add: elem_def)
    finally show "elem ?r [u ! 1, u ! 2, u ! 0, u ! 3] = elem F (tl u)"
      unfolding m using u by simp
  qed
  show ?thesis by (simp only: 1 2 3 4 and_then_simps)
qed

lemma kernel_temp_eq:
  assumes "shape k = [H, W, 2]"
  shows "and_then (exp_t (tmap f k)) (\<lambda>e. if c then Inr e else conj_t e)
       = Inr (if c then exp_values (tmap f k) else conj_values (exp_values (tmap f k)))"
proof -
  have "shape (tmap f k) = [H, W] @ [2]" using assms by simp
  then have "exp_t (tmap f k) = Inr (exp_values (tmap f k))" by (rule exp_t_values)
  moreover have "conj_t (exp_values (tmap f k)) = Inr (conj_values (exp_values (tmap f k)))"
    by (rule conj_t_values[where s = "[H, W]"]) (simp add: assms)
  ultimately show ?thesis by simp
qed

lemma defocus_kernel_eq:
  "shape k = [H, W, 2] \<Longrightarrow> defocus_kernel k d = Inr (kernel_temp_values k d)"
  using kernel_temp_eq[of k H W "\<lambda>x. \<bar>d\<bar> * x" "0 < d"]
  by (cases "0 < d") (simp_all add: defocus_kernel_def kernel_temp_values_def not_less)

lemma select_first_batch:
  assumes "i < n" "wf_tensor (G i)" "shape (G i) = s"
  shows "select_first i (batch n s G) = Inr (G i)"
proof -
  have "tabulate s (\<lambda>u. elem (batch n s G) (i # u)) = tabulate s (elem (G i))"
    by (rule tabulate_cong) (simp add: elem_batch assms(1))
  then show ?thesis
    using assms tabulate_elem[OF assms(2)]
    by (simp add: select_first_def select_axis_def rank_def)
qed

lemma assign_first_batch:
  assumes "i < n" "shape v = s"
  shows "assign_first i (batch n s G) v = Inr (batch n s (G(i := v)))"
proof -
  have "tabulate (n # s) (\<lambda>u. if u ! 0 = i then elem v (take 0 u @ drop (Suc 0) u)
                                else elem (batch n s G) u)
      = batch n s (G(i := v))"
    unfolding batch_def[of n s "G(i := v)"]
  proof (rule tabulate_cong)
    fix u assume "idx_ok (n # s) u"
    then obtain j w where u: "u = j # w" "j < n" "idx_ok s w" by (auto simp: idx_ok_Cons)
    then show "(if u ! 0 = i then elem v (take 0 u @ drop (Suc 0) u)
                else elem (batch n s G) u) = elem ((G(i := v)) (hd u)) (tl u)"
      by (simp add: elem_batch)
  qed
  moreover have "assign_axis 0 i (batch n s G) v
      = Inr (tabulate (shape (batch n s G)) (\<lambda>u. if u ! 0 = i then elem v (take 0 u @ drop (Suc 0) u)
                                else elem (batch n s G) u))"
    using assms by (intro assign_axis_eq) (simp_all add: rank_def)
  ultimately show ?thesis
    by (simp add: assign_first_def)
qed

lemma Defocus_forward_loop_eq:
  assumes "shape k = [H, W, 2]"
    and "\<And>i. shape (G i) = [H, W, 2] \<and> wf_tensor (G i)"
    and "list_all (\<lambda>i. i < n) idxs"
  shows "Defocus_forward_loop k dl idxs (batch n [H, W, 2] G)
       = Inr (batch n [H, W, 2]
           (fold (\<lambda>i G. G(i := cmul (G i) (kernel_temp_values k (dl ! i)))) idxs G))"
  using assms(2,3)
proof (induction idxs arbitrary: G)
  case Nil
  show ?case by simp
next
  case (Cons i idxs)
  let ?K = "kernel_temp_values k (dl ! i)"
  have i: "i < n" using Cons.prems(2) by simp
  have G: "shape (G i) = [H, W] @ [2]" "wf_tensor (G i)" using Cons.prems(1)[of i] by simp_all
  have K: "shape ?K = [H, W] @ [2]"
    using assms(1) by (simp add: kernel_temp_values_def)
  have 1: "and_then (exp_t (tmap (\<lambda>x. \<bar>dl ! i\<bar> * x) k))
             (\<lambda>e. if 0 < dl ! i then Inr e else conj_t e) = Inr ?K"
    using kernel_temp_eq[OF assms(1), of "\<lambda>x. \<bar>dl ! i\<bar> * x" "0 < dl ! i"]
    by (simp add: kernel_temp_values_def)
  have 2: "select_first i (batch n [H, W, 2] G) = Inr (G i)"
    using i G by (intro select_first_batch) simp_all
  have 3: "multiply_complex (G i) ?K = Inr (cmul (G i) ?K)"
    using G(1) K by (rule multiply_complex_cmul)
  have 4: "assign_first i (batch n [H, W, 2] G) (cmul (G i) ?K)
      = Inr (batch n [H, W, 2] (G(i := cmul (G i) ?K)))"
    using i G(1) by (intro assign_first_batch) simp_all
  have 5: "Defocus_forward_loop k dl idxs (batch n [H, W, 2] (G(i := cmul (G i) ?K)))
      = Inr (batch n [H, W, 2]
           (fold (\<lambda>i G. G(i := cmul (G i) (kernel_temp_values k (dl ! i)))) idxs
              (G(i := cmul (G i) ?K))))"
    using Cons.prems G(1) by (intro Cons.IH) simp_all
  have "Defocus_forward_loop k dl (i # idxs) (batch n [H, W, 2] G)
      = and_then (and_then (exp_t (tmap (\<lambda>x. \<bar>dl ! i\<bar> * x) k))
             (\<lambda>e. if 0 < dl ! i then Inr e else conj_t e)) (\<lambda>kernel_temp.
        and_then (select_first i (batch n [H, W, 2] G)) (\<lambda>slice.
        and_then (multiply_complex slice kernel_temp) (\<lambda>v.
        and_then (assign_first i (batch n [H, W, 2] G) v) (\<lambda>field.
          Defocus_forward_loop k dl idxs field))))"
    by (simp add: and_then_assoc)
  then show ?case
    by (simp only: 1 2 3 4 5 and_then_simps fold_simps)
qed

lemma fold_update_upt:
  "fold (\<lambda>i G. G(i := f i (G i))) [0..<n] G = (\<lambda>i. if i < n then f i (G i) else G i)"
proof (induction n)
  case 0
  show ?case by simp
next
  case (Suc n)
  let ?F = "\<lambda>i G. G(i := f i (G i))"
  have "fold ?F [0..<Suc n] G = (fold ?F [0..<n] G)(n := f n (fold ?F [0..<n] G n))"
    by simp
  also have "\<dots> = (\<lambda>i. if i < Suc n then f i (G i) else G i)"
    unfolding Suc by (auto simp: fun_eq_iff less_Suc_eq)
  finally show ?case .
qed

lemma permute_back:
  "permute [1, 2, 0, 3] (batch n [H, W, 2] R) = Inr (defocus_output n H W R)"
proof -
  have 1: "permute [1, 2, 0, 3] (batch n [H, W, 2] R)
      = Inr (tabulate [H, W, n, 2] (\<lambda>u. elem (batch n [H, W, 2] R) [u ! 2, u ! 0, u ! 1, u ! 3]))"
    by (simp add: permute_def rank_def upt_conv_Cons numeral_2_eq_2 numeral_3_eq_3)
  have 2: "tabulate [H, W, n, 2] (\<lambda>u. elem (batch n [H, W, 2] R) [u ! 2, u ! 0, u ! 1, u ! 3])
      = defocus_output n H W R"
    unfolding defocus_output_def
    by (rule tabulate_cong) (auto simp: idx_ok4 elem_batch)
  show ?thesis unfolding 1 2 ..
qed

lemma select_defocus_output:
  assumes "i < n" "wf_tensor (R i)" "shape (R i) = [H, W, 2]"
  shows "select_axis 2 i (defocus_output n H W R) = Inr (R i)"
proof -
  have "tabulate [H, W, 2] (\<lambda>u. elem (defocus_output n H W R) (take 2 u @ [i] @ drop 2 u))
      = tabulate [H, W, 2] (elem (R i))"
  proof (rule tabulate_cong)
    fix u assume "idx_ok [H, W, 2] u"
    then obtain h w c where u: "u = [h, w, c]" "h < H" "w < W" "c < 2" by (auto simp: idx_ok3)
    then show "elem (defocus_output n H W R) (take 2 u @ [i] @ drop 2 u) = elem (R i) u"
      using assms(1) by (simp add: defocus_output_def elem_tabulate)
  qed
  then show ?thesis
    using assms tabulate_elem[OF assms(2)]
    by (simp add: select_axis_def rank_def defocus_output_def)
qed

lemma convolve_kernel_eq:
  assumes "shape t = [H, W, 2]" "shape k = [H, W, 2]"
  shows "convolve_kernel t k 2 b = Inr (ifft2 (cmul (fft2 t) k))"
proof -
  have "multiply_complex (fft2 t) k = Inr (cmul (fft2 t) k)"
    by (rule multiply_complex_cmul[where s = "[H, W]"]) (simp_all add: assms)
  then show ?thesis
    using assms by (simp add: convolve_kernel_def fft_t_2_rank3[of t H W] ifft_t_2_rank3[of _ H W])
qed

lemma shape_kernel_temp_values [simp]: "shape (kernel_temp_values k d) = shape k"
  by (simp add: kernel_temp_values_def)

lemma Defocus_forward_eq:
  assumes "shape field = [H, W, 2]" "shape k = [H, W, 2]" "offsets dlist \<noteq> []"
  shows "Defocus_forward field k dlist
       = Inr ((k, fft2 field, dlist),
              defocus_output (length (offsets dlist)) H W
                (\<lambda>i. ifft2 (cmul (fft2 field) (kernel_temp_values k (offsets dlist ! i)))))"
proof -
  let ?n = "length (offsets dlist)"
  let ?F = "fft2 field"
  let ?M = "\<lambda>i. cmul ?F (kernel_temp_values k (offsets dlist ! i))"
  have F: "shape ?F = [H, W, 2]" using assms(1) by simp
  have 1: "fft_t 2 field = Inr ?F" using assms(1) by (rule fft_t_2_rank3)
  have 2: "and_then (unsqueeze 2 ?F) (\<lambda>a. and_then (repeat [1, 1, ?n, 1] a) (permute [2, 0, 1, 3]))
      = Inr (batch ?n [H, W, 2] (\<lambda>_. ?F))"
    using F by (rule stack_offsets)
  have 3: "Defocus_forward_loop k (offsets dlist) [0..<?n] (batch ?n [H, W, 2] (\<lambda>_. ?F))
      = Inr (batch ?n [H, W, 2] (\<lambda>i. if i < ?n then ?M i else ?F))"
    using Defocus_forward_loop_eq[OF assms(2), of "\<lambda>_. ?F" ?n "[0..<?n]" "offsets dlist"] F
      fold_update_upt[of "\<lambda>i g. cmul g (kernel_temp_values k (offsets dlist ! i))" ?n "\<lambda>_. ?F"]
    by (simp add: list_all_iff)
  have 4: "ifft_t 2 (batch ?n [H, W, 2] (\<lambda>i. if i < ?n then ?M i else ?F))
      = Inr (batch ?n [H, W, 2] (\<lambda>i. ifft2 (if i < ?n then ?M i else ?F)))"
    using F assms(3) by (intro ifft_t_2_batch) simp_all
  have 5: "permute [1, 2, 0, 3] (batch ?n [H, W, 2] (\<lambda>i. ifft2 (if i < ?n then ?M i else ?F)))
      = Inr (defocus_output ?n H W (\<lambda>i. ifft2 (if i < ?n then ?M i else ?F)))"
    by (rule permute_back)
  have 6: "defocus_output ?n H W (\<lambda>i. ifft2 (if i < ?n then ?M i else ?F))
      = defocus_output ?n H W (\<lambda>i. ifft2 (?M i))"
    unfolding defocus_output_def by (rule tabulate_cong) (auto simp: idx_ok4)
  have "Defocus_forward field k dlist
      = and_then (fft_t 2 field) (\<lambda>F.
        and_then (and_then (unsqueeze 2 F) (\<lambda>a. and_then (repeat [1, 1, ?n, 1] a) (permute [2, 0, 1, 3]))) (\<lambda>f3.
        and_then (Defocus_forward_loop k (offsets dlist) [0..<?n] f3) (\<lambda>f4.
        and_then (ifft_t 2 f4) (\<lambda>f5.
        and_then (permute [1, 2, 0, 3] f5) (\<lambda>f6. Inr ((k, F, dlist), f6))))))"
    by (simp add: Defocus_forward_def Let_def and_then_assoc)
  then show ?thesis
    by (simp only: 1 2 3 4 5 6 and_then_simps)
qed

lemmas defocus_defs = Defocus_forward_def Defocus_backward_def index_of.simps

lemma and_then_Inr [simp]: "and_then m Inr = m"
  by (cases m) simp_all

lemma complex_conj_eq [simp]: "complex_conj = conj_t"
  by (intro ext) (simp add: complex_conj_def ComplexConj_forward_def)

lemma single_slice_eq:
  assumes "shape field = [H, W, 2]" "shape k = [H, W, 2]" "d \<noteq> 0"
  shows "SingleSlicePropagation_forward \<lparr> kernel_phase = k \<rparr> field d
       = Inr (ifft2 (cmul (fft2 field) (kernel_temp_values k d)))"
proof -
  have 1: "assert_complex (tmap (\<lambda>x. \<bar>d\<bar> * x) k) = Inr ()"
    using assms(2) by (simp add: assert_complex_def rank_def)
  have 2: "and_then (exp_t (tmap (\<lambda>x. \<bar>d\<bar> * x) k)) (\<lambda>e. if 0 < d then Inr e else conj_t e)
      = Inr (kernel_temp_values k d)"
    using kernel_temp_eq[OF assms(2), of "\<lambda>x. \<bar>d\<bar> * x" "0 < d"]
    by (simp add: kernel_temp_values_def)
  have 3: "convolve_kernel field (kernel_temp_values k d) 2 False
      = Inr (ifft2 (cmul (fft2 field) (kernel_temp_values k d)))"
    using assms(1,2) by (intro convolve_kernel_eq) simp_all
  have "SingleSlicePropagation_forward \<lparr> kernel_phase = k \<rparr> field d
      = and_then (and_then (exp_t (tmap (\<lambda>x. \<bar>d\<bar> * x) k)) (\<lambda>e. if 0 < d then Inr e else conj_t e))
          (\<lambda>kernel_t. convolve_kernel field kernel_t 2 False)"
    using assms(3)
    by (simp add: SingleSlicePropagation_forward_def complex_exp_def ComplexExp_forward_def 1
        complex_conv_def ComplexConv_forward_def and_then_assoc cong: if_cong)
  then show ?thesis by (simp only: 2 3 and_then_simps)
qed

text \<open>
  Claim C1, as the code has it. For a field and a kernel of shape \<open>[H, W, 2]\<close> and every
  offset of the defocus list, the forward pass succeeds and the output field of that
  offset is the field convolved with \<open>exp(|offset| * kernel)\<close>, conjugated exactly when the
  offset is not positive. This is the sign convention of single-slice propagation: for
  a nonzero offset the output field is what single-slice propagation by that offset
  returns.
\<close>

theorem defocus_forward_kernel:
  assumes "shape field = [H, W, 2]" "shape k = [H, W, 2]" "idx < length (offsets dlist)"
  shows "and_then (Defocus_forward field k dlist) (\<lambda>r. select_axis 2 idx (snd r))
           = and_then (defocus_kernel k (offsets dlist ! idx)) (\<lambda>kt. convolve_kernel field kt 2 False)
       \<and> \<not> isl (and_then (Defocus_forward field k dlist) (\<lambda>r. select_axis 2 idx (snd r)))
       \<and> (offsets dlist ! idx \<noteq> 0 \<longrightarrow>
            and_then (Defocus_forward field k dlist) (\<lambda>r. select_axis 2 idx (snd r))
              = SingleSlicePropagation_forward \<lparr> kernel_phase = k \<rparr> field (offsets dlist ! idx))"
proof -
  let ?d = "offsets dlist ! idx"
  let ?R = "\<lambda>i. ifft2 (cmul (fft2 field) (kernel_temp_values k (offsets dlist ! i)))"
  have "and_then (Defocus_forward field k dlist) (\<lambda>r. select_axis 2 idx (snd r))
      = select_axis 2 idx (defocus_output (length (offsets dlist)) H W ?R)"
    using assms(3) by (subst Defocus_forward_eq[OF assms(1,2)]) auto
  also have "\<dots> = Inr (?R idx)"
    using assms by (intro select_defocus_output) simp_all
  finally have l: "and_then (Defocus_forward field k dlist) (\<lambda>r. select_axis 2 idx (snd r))
      = Inr (?R idx)" .
  have r: "and_then (defocus_kernel k ?d) (\<lambda>kt. convolve_kernel field kt 2 False) = Inr (?R idx)"
    using assms(1,2) by (simp add: defocus_kernel_eq[OF assms(2)] convolve_kernel_eq[of _ H W])
  show ?thesis
    unfolding l r using single_slice_eq[OF assms(1,2), of ?d] by simp
qed

theorem defocus_forward_kernel_witness:
  "shape (Tensor [1, 1, 2] [1, 0]) = [1, 1, 2] \<and> shape (Tensor [1, 1, 2] [0, pi / 2]) = [1, 1, 2]
   \<and> 0 < length (offsets (PyList [- 1]))
   \<and> and_then (Defocus_forward (Tensor [1, 1, 2] [1, 0]) (Tensor [1, 1, 2] [0, pi / 2]) (PyList [- 1]))
        (\<lambda>r. select_axis 2 0 (snd r))
      = and_then (defocus_kernel (Tensor [1, 1, 2] [0, pi / 2]) (offsets (PyList [- 1]) ! 0))
        (\<lambda>kt. convolve_kernel (Tensor [1, 1, 2] [1, 0]) kt 2 False)
   \<and> and_then (Defocus_forward (Tensor [1, 1, 2] [1, 0]) (Tensor [1, 1, 2] [0, pi / 2]) (PyList [- 1]))
        (\<lambda>r. select_axis 2 0 (snd r))
      = SingleSlicePropagation_forward \<lparr> kernel_phase = Tensor [1, 1, 2] [0, pi / 2] \<rparr>
        (Tensor [1, 1, 2] [1, 0]) (offsets (PyList [- 1]) ! 0)
   \<and> and_then (Defocus_forward (Tensor [1, 1, 2] [1, 0]) (Tensor [1, 1, 2] [0, pi / 2]) (PyList [- 1]))
        (\<lambda>r. select_axis 2 0 (snd r)) = Inr (Tensor [1, 1, 2] [0, - 1])"
proof -
  have p1: "shape (Tensor [1, 1, 2] [1, 0]) = [1, 1, 2]" by simp
  have p2: "shape (Tensor [1, 1, 2] [0, pi / 2]) = [1, 1, 2]" by simp
  have p3: "0 < length (offsets (PyList [- 1]))" by simp
  have p4: "offsets (PyList [- 1]) ! 0 \<noteq> 0" by simp
  note t = defocus_forward_kernel [OF p1 p2 p3]
  note a = t[THEN conjunct1]
  note c = t[THEN conjunct2, THEN conjunct2, rule_format, OF p4]
  have l: "and_then (Defocus_forward (Tensor [1, 1, 2] [1, 0]) (Tensor [1, 1, 2] [0, pi / 2]) (PyList [- 1]))
        (\<lambda>r. select_axis 2 0 (snd r)) = Inr (Tensor [1, 1, 2] [0, - 1])"
    by (simp add: defocus_defs eval_defs cong: and_then_weak_cong)
  show ?thesis
    by (intro conjI p1 p2 p3 a c l)
qed

text \<open>
  Claim C1, as stated, fails: at the positive offset 1 the forward pass applies the
  kernel \<open>exp(i * pi / 2) = i\<close> unconjugated, as single-slice propagation by 1 does; the
  kernel conjugated for a positive offset would give \<open>-i\<close>.
\<close>

theorem defocus_sign_counterexample:
  "and_then (Defocus_forward (Tensor [1, 1, 2] [1, 0]) (Tensor [1, 1, 2] [0, pi / 2]) (PyList [1]))
        (\<lambda>r. select_axis 2 0 (snd r)) = Inr (Tensor [1, 1, 2] [0, 1])
   \<and> and_then (claimed_defocus_kernel (Tensor [1, 1, 2] [0, pi / 2]) 1)
        (\<lambda>kt. convolve_kernel (Tensor [1, 1, 2] [1, 0]) kt 2 False) = Inr (Tensor [1, 1, 2] [0, - 1])
   \<and> SingleSlicePropagation_forward \<lparr> kernel_phase = Tensor [1, 1, 2] [0, pi / 2] \<rparr>
        (Tensor [1, 1, 2] [1, 0]) 1 = Inr (Tensor [1, 1, 2] [0, 1])"
proof -
  have 1: "and_then (Defocus_forward (Tensor [1, 1, 2] [1, 0]) (Tensor [1, 1, 2] [0, pi / 2]) (PyList [1]))
        (\<lambda>r. select_axis 2 0 (snd r)) = Inr (Tensor [1, 1, 2] [0, 1])"
    by (simp add: defocus_defs eval_defs cong: and_then_weak_cong)
  have 2: "and_then (claimed_defocus_kernel (Tensor [1, 1, 2] [0, pi / 2]) 1)
        (\<lambda>kt. convolve_kernel (Tensor [1, 1, 2] [1, 0]) kt 2 False) = Inr (Tensor [1, 1, 2] [0, - 1])"
    by (simp add: claimed_defocus_kernel_def eval_defs cong: and_then_weak_cong)
  have 3: "SingleSlicePropagation_forward \<lparr> kernel_phase = Tensor [1, 1, 2] [0, pi / 2] \<rparr>
        (Tensor [1, 1, 2] [1, 0]) 1 = Inr (Tensor [1, 1, 2] [0, 1])"
    by (simp add: prop_defs eval_defs cong: and_then_weak_cong)
  show ?thesis using 1 2 3 by simp
qed

lemma idx_ok_HW2_snoc: "idx_ok [H, W, 2] (v @ [c]) \<longleftrightarrow> idx_ok [H, W] v \<and> c < 2"
  using idx_ok_snoc_snoc[of "[H, W]" 2 v c] by simp

lemma idx_ok_HW2: "idx_ok [H, W, 2] u \<longleftrightarrow> (\<exists>v c. u = v @ [c] \<and> idx_ok [H, W] v \<and> c < 2)"
  using idx_ok_snoc[of "[H, W]" 2 u] by simp

lemma kernel_temp_values_zero:
  assumes "wf_tensor k" "shape k = [H, W, 2]" "idx_ok [H, W] v"
  shows "elem (kernel_temp_values k 0) (v @ [0]) = 1" "elem (kernel_temp_values k 0) (v @ [1]) = 0"
proof -
  let ?Z = "tmap (\<lambda>x. 0) k"
  have "tmap (\<lambda>x. \<bar>0\<bar> * x) k = ?Z"
    by (simp add: tmap_def)
  then have K: "kernel_temp_values k 0 = conj_values (exp_values ?Z)"
    by (simp only: kernel_temp_values_def less_irrefl if_False)
  have ok: "idx_ok (shape k) (v @ [0])" "idx_ok (shape k) (v @ [1])"
    using assms(2,3) by (simp_all add: idx_ok_HW2_snoc)
  have z: "elem ?Z (v @ [0]) = 0" "elem ?Z (v @ [1]) = 0"
    using ok assms(1) by (simp_all add: elem_tmap)
  have e: "elem (exp_values ?Z) (v @ [0]) = 1" "elem (exp_values ?Z) (v @ [1]) = 0"
    using ok z by (simp_all add: exp_values_def elem_tabulate)
  show "elem (kernel_temp_values k 0) (v @ [0]) = 1" "elem (kernel_temp_values k 0) (v @ [1]) = 0"
    unfolding K using ok e by (simp_all add: conj_values_def elem_tabulate)
qed

lemma cmul_kernel_zero:
  assumes "wf_tensor F" "shape F = [H, W, 2]" "wf_tensor k" "shape k = [H, W, 2]"
  shows "cmul F (kernel_temp_values k 0) = F"
proof -
  have "cmul F (kernel_temp_values k 0) = tabulate (shape F) (elem F)"
    unfolding cmul_def
  proof (rule tabulate_cong)
    fix u assume "idx_ok (shape F) u"
    then obtain v c where u: "u = v @ [c]" "idx_ok [H, W] v" "c < 2"
      using assms(2) by (auto simp: idx_ok_HW2)
    have "c = 0 \<or> c = 1" using u(3) by auto
    then show "(if last u = 0
          then elem F (butlast u @ [0]) * elem (kernel_temp_values k 0) (butlast u @ [0])
             - elem F (butlast u @ [1]) * elem (kernel_temp_values k 0) (butlast u @ [1])
          else elem F (butlast u @ [0]) * elem (kernel_temp_values k 0) (butlast u @ [1])
             + elem F (butlast u @ [1]) * elem (kernel_temp_values k 0) (butlast u @ [0]))
        = elem F u"
      unfolding u(1) butlast_snoc last_snoc kernel_temp_values_zero[OF assms(3,4) u(2)]
      by auto
  qed
  then show ?thesis using assms(1) by (simp add: tabulate_elem)
qed

lemma defocus_output_single:
  assumes "wf_tensor field" "shape field = [H, W, 2]"
  shows "defocus_output 1 H W (\<lambda>_. field) = Tensor [H, W, 1, 2] (data field)"
proof (rule tensor_eqI)
  show "wf_tensor (defocus_output 1 H W (\<lambda>_. field))" by (simp add: defocus_output_def)
  show "wf_tensor (Tensor [H, W, 1, 2] (data field))"
    using assms by (simp add: wf_tensor_def)
  show "shape (defocus_output 1 H W (\<lambda>_. field)) = shape (Tensor [H, W, 1, 2] (data field))"
    by (simp add: defocus_output_def)
  fix u assume "idx_ok (shape (defocus_output 1 H W (\<lambda>_. field))) u"
  then obtain h w c where u: "u = [h, w, 0, c]" "h < H" "w < W" "c < 2"
    by (auto simp: defocus_output_def idx_ok4)
  then show "elem (defocus_output 1 H W (\<lambda>_. field)) u = elem (Tensor [H, W, 1, 2] (data field)) u"
    using assms(2) by (simp add: defocus_output_def elem_tabulate) (simp add: elem_def)
qed

text \<open>
  Claim C7. For every field and every kernel of shape \<open>[H, W, 2]\<close>, the forward pass of
  the defocus stack operator with the defocus list \<open>[0.0]\<close> returns, in exact arithmetic,
  the values of the input field, as a stack of shape \<open>[H, W, 1, 2]\<close> whose only slice is
  the field.
\<close>

theorem defocus_zero_offset_identity:
  assumes "wf_tensor field" "shape field = [H, W, 2]" "wf_tensor k" "shape k = [H, W, 2]"
    and "offsets dlist = [0]"
  shows "and_then (Defocus_forward field k dlist) (\<lambda>r. Inr (snd r))
           = Inr (Tensor [H, W, 1, 2] (data field))
       \<and> and_then (Defocus_forward field k dlist) (\<lambda>r. select_axis 2 0 (snd r)) = Inr field"
proof -
  have 1: "cmul (fft2 field) (kernel_temp_values k 0) = fft2 field"
    using assms(2-4) by (intro cmul_kernel_zero[where H = H and W = W]) simp_all
  have 2: "ifft2 (fft2 field) = field"
    using assms(1,2) by (rule ifft2_fft2)
  have 3: "defocus_output 1 H W (\<lambda>i. ifft2 (cmul (fft2 field) (kernel_temp_values k ([0] ! i))))
      = defocus_output 1 H W (\<lambda>_. field)"
    unfolding defocus_output_def
    by (rule tabulate_cong) (auto simp: idx_ok4 1 2)
  have out: "Defocus_forward field k dlist
      = Inr ((k, fft2 field, dlist), Tensor [H, W, 1, 2] (data field))"
    using Defocus_forward_eq[OF assms(2,4), of dlist] assms(5) 3
      defocus_output_single[OF assms(1,2)]
    by simp
  have "select_axis 2 0 (defocus_output 1 H W (\<lambda>_. field)) = Inr field"
    using assms(1,2) by (intro select_defocus_output) simp_all
  then have "select_axis 2 0 (Tensor [H, W, 1, 2] (data field)) = Inr field"
    by (simp only: defocus_output_single[OF assms(1,2)])
  then show ?thesis by (simp add: out)
qed

theorem defocus_zero_offset_identity_witness:
  "wf_tensor (Tensor [1, 2, 2] [1, 2, 3, 4]) \<and> shape (Tensor [1, 2, 2] [1, 2, 3, 4]) = [1, 2, 2]
   \<and> wf_tensor (Tensor [1, 2, 2] [0, 1, 2, 3]) \<and> shape (Tensor [1, 2, 2] [0, 1, 2, 3]) = [1, 2, 2]
   \<and> offsets (PyList [0]) = [0]
   \<and> and_then (Defocus_forward (Tensor [1, 2, 2] [1, 2, 3, 4]) (Tensor [1, 2, 2] [0, 1, 2, 3]) (PyList [0]))
        (\<lambda>r. Inr (snd r)) = Inr (Tensor [1, 2, 1, 2] (data (Tensor [1, 2, 2] [1, 2, 3, 4])))
   \<and> and_then (Defocus_forward (Tensor [1, 2, 2] [1, 2, 3, 4]) (Tensor [1, 2, 2] [0, 1, 2, 3]) (PyList [0]))
        (\<lambda>r. select_axis 2 0 (snd r)) = Inr (Tensor [1, 2, 2] [1, 2, 3, 4])"
proof -
  have p1: "wf_tensor (Tensor [1, 2, 2] [1, 2, 3, 4])" by (simp add: wf_tensor_def)
  have p2: "shape (Tensor [1, 2, 2] [1, 2, 3, 4]) = [1, 2, 2]" by simp
  have p3: "wf_tensor (Tensor [1, 2, 2] [0, 1, 2, 3])" by (simp add: wf_tensor_def)
  have p4: "shape (Tensor [1, 2, 2] [0, 1, 2, 3]) = [1, 2, 2]" by simp
  have p5: "offsets (PyList [0]) = [0]" by simp
  note t = defocus_zero_offset_identity [OF p1 p2 p3 p4 p5]
  show ?thesis
    by (intro conjI p1 p2 p3 p4 p5 t[THEN conjunct1] t[THEN conjunct2])
qed

lemma Defocus_backward_PyList: "Defocus_backward (k, f, PyList xs) g = Inl AttributeError"
  by (simp add: Defocus_backward_def)

lemma Defocus_backward_Inr:
  "Defocus_backward saved g = Inr r \<Longrightarrow> \<exists>dl. snd (snd saved) = TensorList dl"
  by (cases saved; cases "snd (snd saved)") (auto simp: Defocus_backward_def)

lemma Defocus_forward_empty:
  assumes "shape field = [H, W, 2]" "offsets dlist = []"
  shows "Defocus_forward field k dlist = Inl RuntimeError"
proof -
  let ?F = "fft2 field"
  have F: "shape ?F = [H, W, 2]" using assms(1) by simp
  have 1: "fft_t 2 field = Inr ?F" using assms(1) by (rule fft_t_2_rank3)
  have 2: "and_then (unsqueeze 2 ?F) (\<lambda>a. and_then (repeat [1, 1, 0, 1] a) (permute [2, 0, 1, 3]))
      = Inr (batch 0 [H, W, 2] (\<lambda>_. ?F))"
    using F by (rule stack_offsets)
  have 3: "ifft_t 2 (batch 0 [H, W, 2] (\<lambda>_. ?F)) = Inl RuntimeError"
    by (simp add: ifft_t_def rank_def)
  have "Defocus_forward field k dlist
      = and_then (fft_t 2 field) (\<lambda>F.
        and_then (and_then (unsqueeze 2 F) (\<lambda>a. and_then (repeat [1, 1, 0, 1] a) (permute [2, 0, 1, 3]))) (\<lambda>f3.
        and_then (ifft_t 2 f3) (\<lambda>f5.
        and_then (permute [1, 2, 0, 3] f5) (\<lambda>f6. Inr ((k, F, dlist), f6)))))"
    by (simp add: Defocus_forward_def Let_def and_then_assoc assms(2))
  then show ?thesis
    by (simp only: 1 2 3 and_then_simps)
qed

text \<open>
  Claim C10, as the code has it. On a non-empty field of shape \<open>[H, W, 2]\<close> with a kernel
  of that shape, and with the defocus list given as a non-empty Python list (the default
  \<open>[0.0]\<close> is one), the forward pass succeeds and every backward pass on what it saved
  fails with an attribute error, at \<open>defocus_list.clone()\<close>. With the empty Python list
  the forward pass itself fails with a runtime error: the inverse transform is handed a
  stack of no fields. A backward pass that returns gradients was given the defocus list
  as a tensor.
\<close>

theorem defocus_backward_needs_tensor:
  assumes "shape field = [H, W, 2]" "shape k = [H, W, 2]" "0 < H" "0 < W"
  shows "(xs \<noteq> [] \<longrightarrow>
            (\<exists>out. Defocus_forward field k (PyList xs) = Inr ((k, fft2 field, PyList xs), out)
               \<and> (\<forall>g. Defocus_backward (k, fft2 field, PyList xs) g = Inl AttributeError)))
       \<and> Defocus_forward field k (PyList []) = Inl RuntimeError
       \<and> (\<forall>saved g r. Defocus_backward saved g = Inr r \<longrightarrow> (\<exists>dl. snd (snd saved) = TensorList dl))"
proof (intro conjI impI allI)
  assume "xs \<noteq> []"
  then have "offsets (PyList xs) \<noteq> []" by simp
  from Defocus_forward_eq[OF assms(1,2) this]
  show "\<exists>out. Defocus_forward field k (PyList xs) = Inr ((k, fft2 field, PyList xs), out)
      \<and> (\<forall>g. Defocus_backward (k, fft2 field, PyList xs) g = Inl AttributeError)"
    using Defocus_backward_PyList by blast
next
  show "Defocus_forward field k (PyList []) = Inl RuntimeError"
    using assms(1) by (rule Defocus_forward_empty) simp
next
  fix saved g r
  assume "Defocus_backward saved g = Inr r"
  then show "\<exists>dl. snd (snd saved) = TensorList dl"
    by (rule Defocus_backward_Inr)
qed

theorem defocus_backward_needs_tensor_witness:
  "shape (Tensor [1, 1, 2] [1, 0]) = [1, 1, 2] \<and> shape (Tensor [1, 1, 2] [0, pi / 2]) = [1, 1, 2]
   \<and> (0::nat) < 1 \<and> [0::real] \<noteq> []
   \<and> (\<exists>out. Defocus_forward (Tensor [1, 1, 2] [1, 0]) (Tensor [1, 1, 2] [0, pi / 2]) (PyList [0])
                = Inr ((Tensor [1, 1, 2] [0, pi / 2], fft2 (Tensor [1, 1, 2] [1, 0]), PyList [0]), out)
            \<and> (\<forall>g. Defocus_backward (Tensor [1, 1, 2] [0, pi / 2], fft2 (Tensor [1, 1, 2] [1, 0]), PyList [0]) g
                  = Inl AttributeError))
   \<and> Defocus_forward (Tensor [1, 1, 2] [1, 0]) (Tensor [1, 1, 2] [0, pi / 2]) (PyList [])
       = Inl RuntimeError
   \<and> Defocus_forward (Tensor [1, 1, 2] [1, 0]) (Tensor [1, 1, 2] [0, pi / 2]) (PyList [0])
       = Inr ((Tensor [1, 1, 2] [0, pi / 2], Tensor [1, 1, 2] [1, 0], PyList [0]), Tensor [1, 1, 1, 2] [1, 0])
   \<and> Defocus_backward (Tensor [1, 1, 2] [0, pi / 2], Tensor [1, 1, 2] [1, 0], PyList [0])
        (Tensor [1, 1, 1, 2] [1, 0]) = Inl AttributeError
   \<and> Defocus_backward (Tensor [1, 1, 2] [0, pi / 2], Tensor [1, 1, 2] [1, 0], TensorList [1])
        (Tensor [1, 1, 1, 2] [1, 0]) = Inr (Tensor [1, 1, 2] [0, - 1], [- pi / 2])"
proof -
  have p1: "shape (Tensor [1, 1, 2] [1, 0]) = [1, 1, 2]" by simp
  have p2: "shape (Tensor [1, 1, 2] [0, pi / 2]) = [1, 1, 2]" by simp
  have p3: "(0::nat) < 1" by simp
  have p4: "[0::real] \<noteq> []" by simp
  note t = defocus_backward_needs_tensor [OF p1 p2 p3 p3, of "[0]"]
  note t1 = t[THEN conjunct1, rule_format, OF p4]
  note t2 = t[THEN conjunct2, THEN conjunct1]
  have f: "Defocus_forward (Tensor [1, 1, 2] [1, 0]) (Tensor [1, 1, 2] [0, pi / 2]) (PyList [0])
       = Inr ((Tensor [1, 1, 2] [0, pi / 2], Tensor [1, 1, 2] [1, 0], PyList [0]), Tensor [1, 1, 1, 2] [1, 0])"
    by (simp add: defocus_defs eval_defs cong: and_then_weak_cong)
  have b: "Defocus_backward (Tensor [1, 1, 2] [0, pi / 2], Tensor [1, 1, 2] [1, 0], PyList [0])
        (Tensor [1, 1, 1, 2] [1, 0]) = Inl AttributeError"
    by (simp add: Defocus_backward_def)
  have g: "Defocus_backward (Tensor [1, 1, 2] [0, pi / 2], Tensor [1, 1, 2] [1, 0], TensorList [1])
        (Tensor [1, 1, 1, 2] [1, 0]) = Inr (Tensor [1, 1, 2] [0, - 1], [- pi / 2])"
    by (simp add: defocus_defs eval_defs cong: and_then_weak_cong)
  show ?thesis
    by (intro conjI p1 p2 p3 p4 t1 t2 f b g)
qed

text \<open>
  Claim C10, as stated, fails for the empty Python list: the forward pass does not
  succeed, the stack handed to the inverse transform holds no field.
\<close>

theorem defocus_empty_list_counterexample:
  "offsets (PyList []) = []
   \<and> Defocus_forward (Tensor [1, 2, 2] [1, 2, 3, 4]) (Tensor [1, 2, 2] [0, 1, 2, 3]) (PyList [])
       = Inl RuntimeError
   \<and> fft_t 2 (Tensor [1, 2, 2] [1, 2, 3, 4]) = Inr (Tensor [1, 2, 2] [4, 6, - 2, - 2])
   \<and> ifft_t 2 (Tensor [0, 1, 2, 2] []) = Inl RuntimeError"
proof -
  have 1: "fft_t 2 (Tensor [1, 2, 2] [1, 2, 3, 4]) = Inr (Tensor [1, 2, 2] [4, 6, - 2, - 2])"
    by (simp add: eval_defs cong: and_then_weak_cong)
  have 2: "ifft_t 2 (Tensor [0, 1, 2, 2] []) = Inl RuntimeError"
    by (simp add: ifft_t_def rank_def)
  have 3: "Defocus_forward (Tensor [1, 2, 2] [1, 2, 3, 4]) (Tensor [1, 2, 2] [0, 1, 2, 3]) (PyList [])
       = Inl RuntimeError"
    by (simp add: defocus_defs eval_defs cong: and_then_weak_cong)
  show ?thesis
    by (intro conjI 1 2 3) simp
qed

end
